theory Spec2Isabelle
  imports Complex_Main "HOL-Library.Word" "HOL-Library.Monad_Syntax" "HOL-Library.Multiset"
begin

unbundle bit_operations_syntax

section \<open>Type aliases and the bit tables\<close>

text \<open>
  The header fixes \<^verbatim>\<open>uint_t = uint64_t\<close>, \<^verbatim>\<open>int_t = int64_t\<close>,
  \<^verbatim>\<open>reg_t = std::vector<uint_t>\<close>, \<^verbatim>\<open>complex_t = std::complex<double>\<close> and
  \<^verbatim>\<open>cvector_t = std::vector<complex_t>\<close>. Unsigned 64-bit values are \<open>64 word\<close>;
  a signed 64-bit value is read off a word with \<open>sint\<close>. Amplitudes are modelled as exact
  complex numbers: rounding of double arithmetic is outside the model, the control flow, the
  index arithmetic and the positions read and written are inside it.
\<close>

type_synonym uint_t = "64 word"
type_synonym reg_t = "uint_t list"
type_synonym complex_t = complex
type_synonym cvector_t = "complex list"
type_synonym rvector_t = "real list"

definition BITS :: "uint_t list" where
  "BITS =
    [1, 2, 4, 8,
     16, 32, 64, 128,
     256, 512, 1024, 2048,
     4096, 8192, 16384, 32768,
     65536, 131072, 262144, 524288,
     1048576, 2097152, 4194304, 8388608,
     16777216, 33554432, 67108864, 134217728,
     268435456, 536870912, 1073741824, 2147483648,
     4294967296, 8589934592, 17179869184, 34359738368,
     68719476736, 137438953472, 274877906944, 549755813888,
     1099511627776, 2199023255552, 4398046511104, 8796093022208,
     17592186044416, 35184372088832, 70368744177664, 140737488355328,
     281474976710656, 562949953421312, 1125899906842624, 2251799813685248,
     4503599627370496, 9007199254740992, 18014398509481984, 36028797018963968,
     72057594037927936, 144115188075855872, 288230376151711744, 576460752303423488,
     1152921504606846976, 2305843009213693952, 4611686018427387904, 9223372036854775808]"

definition MASKS :: "uint_t list" where
  "MASKS =
    [0, 1, 3, 7,
     15, 31, 63, 127,
     255, 511, 1023, 2047,
     4095, 8191, 16383, 32767,
     65535, 131071, 262143, 524287,
     1048575, 2097151, 4194303, 8388607,
     16777215, 33554431, 67108863, 134217727,
     268435455, 536870911, 1073741823, 2147483647,
     4294967295, 8589934591, 17179869183, 34359738367,
     68719476735, 137438953471, 274877906943, 549755813887,
     1099511627775, 2199023255551, 4398046511103, 8796093022207,
     17592186044415, 35184372088831, 70368744177663, 140737488355327,
     281474976710655, 562949953421311, 1125899906842623, 2251799813685247,
     4503599627370495, 9007199254740991, 18014398509481983, 36028797018963967,
     72057594037927935, 144115188075855871, 288230376151711743, 576460752303423487,
     1152921504606846975, 2305843009213693951, 4611686018427387903, 9223372036854775807]"

text \<open>
  Both tables are \<^verbatim>\<open>std::array<uint_t, 64>\<close>. Subscripting one of them outside
  \<open>0..63\<close> is undefined behaviour, which the model reports as \<open>None\<close>.
\<close>

definition BITS_at :: "nat \<Rightarrow> uint_t option" where
  "BITS_at i = (if i < 64 then Some (BITS ! i) else None)"

definition MASKS_at :: "nat \<Rightarrow> uint_t option" where
  "MASKS_at i = (if i < 64 then Some (MASKS ! i) else None)"

text \<open>
  The built-in shifts of a 64-bit operand: a shift count of 64 or more is undefined
  behaviour.
\<close>

definition shr :: "uint_t \<Rightarrow> nat \<Rightarrow> uint_t option" where
  "shr w c = (if c < 64 then Some (drop_bit c w) else None)"

definition shl :: "uint_t \<Rightarrow> nat \<Rightarrow> uint_t option" where
  "shl w c = (if c < 64 then Some (push_bit c w) else None)"

section \<open>Bit-index algebra\<close>

text \<open>
  \<^verbatim>\<open>index0(qubits_sorted, k)\<close>: the loop over \<open>j\<close> reads \<open>qubits_sorted[j]\<close> in
  order, so it is a recursion over the list with the running \<open>retval\<close>.
\<close>

fun index0 :: "reg_t \<Rightarrow> uint_t \<Rightarrow> uint_t option" where
  "index0 [] retval = Some retval"
| "index0 (q # qs) retval =
     do {
       m \<leftarrow> MASKS_at (unat q);
       r1 \<leftarrow> shr retval (unat q);
       r2 \<leftarrow> shl r1 (unat (q + 1));
       index0 qs (r2 OR (retval AND m))
     }"


text \<open>
  Checked array access: reading or writing a \<^verbatim>\<open>std::vector\<close>, \<^verbatim>\<open>std::array\<close> or raw
  buffer outside its bounds is undefined behaviour (\<open>None\<close>).
\<close>

definition rd :: "'a list \<Rightarrow> nat \<Rightarrow> 'a option" where
  "rd xs i = (if i < length xs then Some (xs ! i) else None)"

definition wr :: "'a list \<Rightarrow> nat \<Rightarrow> 'a \<Rightarrow> 'a list option" where
  "wr xs i v = (if i < length xs then Some (xs[i := v]) else None)"

text \<open>
  A counted \<^verbatim>\<open>for\<close> loop whose body may hit undefined behaviour: the body runs for each
  index in order on the running state.
\<close>

fun forM :: "'i list \<Rightarrow> ('i \<Rightarrow> 's \<Rightarrow> 's option) \<Rightarrow> 's \<Rightarrow> 's option" where
  "forM [] body s = Some s"
| "forM (i # is) body s = body i s \<bind> forM is body"

text \<open>
  \<^verbatim>\<open>indexes(qubits, qubits_sorted, k)\<close>. The dynamic version allocates
  \<^verbatim>\<open>new uint_t[BITS[N]]\<close> with \<open>N = qubits_sorted.size()\<close>; the fixed-size version
  \<^verbatim>\<open>areg_t<1ULL << N>\<close> runs the same two loops. Every cell of the fresh array is
  written before it is read, so its initial content (indeterminate in C++) is taken as 0.
\<close>

definition indexes_inner :: "uint_t \<Rightarrow> uint_t \<Rightarrow> nat \<Rightarrow> uint_t list \<Rightarrow> uint_t list option" where
  "indexes_inner n b j ret = do { x \<leftarrow> rd ret j; wr ret (unat n + j) (x OR b) }"

definition indexes_outer :: "reg_t \<Rightarrow> nat \<Rightarrow> uint_t list \<Rightarrow> uint_t list option" where
  "indexes_outer qubits i ret =
     do {
       n \<leftarrow> BITS_at i;
       q \<leftarrow> rd qubits i;
       b \<leftarrow> BITS_at (unat q);
       forM [0..<unat n] (indexes_inner n b) ret
     }"

definition indexes :: "reg_t \<Rightarrow> reg_t \<Rightarrow> uint_t \<Rightarrow> uint_t list option" where
  "indexes qubits qubits_sorted k =
     do {
       dim \<leftarrow> BITS_at (length qubits_sorted);
       r0 \<leftarrow> index0 qubits_sorted k;
       ret \<leftarrow> wr (replicate (unat dim) 0) 0 r0;
       forM [0..<length qubits_sorted] (indexes_outer qubits) ret
     }"

section \<open>The QubitVector object and the outcomes of its operations\<close>

text \<open>
  The protected members of \<^verbatim>\<open>QubitVector<complex_t*>\<close>. \<open>data_m\<close> is the allocated
  state buffer; \<open>checkpoint_m\<close> is \<open>None\<close> for the null pointer and the allocated buffer
  otherwise. The two buffers are separate allocations and never alias.
  \<^verbatim>\<open>sample_measure_index_size_\<close> is a C++ \<^verbatim>\<open>int\<close>. A member \<^verbatim>\<open>x_\<close> of the
  class is the field \<open>x_m\<close> here, since a name cannot end in an underscore.
\<close>

record QubitVector =
  num_qubits_m :: uint_t
  data_size_m :: uint_t
  data_m :: cvector_t
  checkpoint_m :: "cvector_t option"
  omp_threads_m :: uint_t
  omp_threshold_m :: uint_t
  sample_measure_index_size_m :: int
  json_chop_threshold_m :: real

text \<open>
  Exceptions: \<^verbatim>\<open>std::runtime_error\<close> with its message, and the
  \<^verbatim>\<open>std::length_error\<close> of a \<^verbatim>\<open>std::vector\<close> asked for more than
  \<^verbatim>\<open>max_size()\<close> elements.

  A \<^verbatim>\<open>const\<close> member or helper yields a \<open>result\<close>: a value, an exception, undefined
  behaviour, or no return at all. A mutating member yields an \<open>outcome\<close>, which on
  an exception carries the object as it stands at the throw.
\<close>

datatype exn = Runtime_error string | Length_error

datatype 'a result = Ok 'a | Raise exn | UB | Diverge

datatype outcome = Returns QubitVector | Throws exn QubitVector | Undefined | Hangs

text \<open>Undefined behaviour inside a computation that cannot throw.\<close>

definition lift :: "'a option \<Rightarrow> 'a result" where
  "lift m = (case m of None \<Rightarrow> UB | Some x \<Rightarrow> Ok x)"

text \<open>\<^verbatim>\<open>std::to_string\<close> of an unsigned value: its decimal digits.\<close>

fun to_string :: "nat \<Rightarrow> string" where
  "to_string n =
     (if n < 10 then [char_of (48 + n)]
      else to_string (n div 10) @ [char_of (48 + n mod 10)])"

declare to_string.simps [simp del]

subsection \<open>Error checks\<close>

text \<open>
  \<^verbatim>\<open>check_qubit\<close> compares \<^verbatim>\<open>qubit + 1 > num_qubits_\<close> in unsigned 64-bit
  arithmetic. The checks return the exception they would throw, if any.
\<close>

definition check_qubit :: "QubitVector \<Rightarrow> uint_t \<Rightarrow> exn option" where
  "check_qubit s qubit =
     (if qubit + 1 > num_qubits_m s
      then Some (Runtime_error (''QubitVector: qubit index '' @ to_string (unat qubit) @
                                '' > '' @ to_string (unat (num_qubits_m s))))
      else None)"

fun check_qubits :: "QubitVector \<Rightarrow> reg_t \<Rightarrow> exn option" where
  "check_qubits s [] = None"
| "check_qubits s (q # qs) =
     (case check_qubit s q of Some e \<Rightarrow> Some e | None \<Rightarrow> check_qubits s qs)"

definition check_vector :: "cvector_t \<Rightarrow> nat \<Rightarrow> unit result" where
  "check_vector vec nqubits =
     (case BITS_at nqubits of
        None \<Rightarrow> UB
      | Some DIM \<Rightarrow>
          if length vec \<noteq> unat DIM
          then Raise (Runtime_error (''QubitVector: vector size is '' @ to_string (length vec) @
                                     '' != '' @ to_string (unat DIM)))
          else Ok ())"

definition check_checkpoint :: "QubitVector \<Rightarrow> exn option" where
  "check_checkpoint s =
     (if checkpoint_m s = None
      then Some (Runtime_error ''QubitVector: checkpoint must exist for inner_product() or revert()'')
      else None)"

subsection \<open>Block iterator\<close>

text \<open>
  \<^verbatim>\<open>apply_lambda(func, qubits)\<close> and \<^verbatim>\<open>apply_lambda(func, qubits, params)\<close>: the
  second overload only hands \<open>params\<close> on to the kernel, so the kernel here is a function
  of the index table and the buffer. The flag \<open>dbg\<close> stands for the compile-time macro
  \<^verbatim>\<open>DEBUG\<close>. \<open>END\<close> is the \<^verbatim>\<open>int_t\<close> value of \<^verbatim>\<open>data_size_ >> NUM_QUBITS\<close>;
  the loop runs \<open>k = 0 .. END - 1\<close> in order. The OpenMP pragma is taken in its sequential
  reading, which is what runs under the default \<^verbatim>\<open>omp_threads_ = 1\<close>.
\<close>

definition apply_lambda ::
  "bool \<Rightarrow> (uint_t list \<Rightarrow> cvector_t \<Rightarrow> cvector_t option) \<Rightarrow> reg_t \<Rightarrow> QubitVector \<Rightarrow> outcome" where
  "apply_lambda dbg func qubits s =
     (case (if dbg then check_qubits s qubits else None) of
        Some e \<Rightarrow> Throws e s
      | None \<Rightarrow>
          (case shr (data_size_m s) (length qubits) of
             None \<Rightarrow> Undefined
           | Some e \<Rightarrow>
               (case forM [0..<nat (sint e)]
                       (\<lambda>k d. indexes qubits (sort qubits) (of_nat k) \<bind> (\<lambda>inds. func inds d))
                       (data_m s) of
                  None \<Rightarrow> Undefined
                | Some d \<Rightarrow> Returns (s\<lparr>data_m := d\<rparr>))))"

text \<open>Sequencing of an operation after a step that may be undefined, or after a check.\<close>

definition opt :: "'a option \<Rightarrow> ('a \<Rightarrow> outcome) \<Rightarrow> outcome" where
  "opt m f = (case m of None \<Rightarrow> Undefined | Some x \<Rightarrow> f x)"

definition checked :: "unit result \<Rightarrow> QubitVector \<Rightarrow> outcome \<Rightarrow> outcome" where
  "checked c s rest =
     (case c of Ok _ \<Rightarrow> rest | Raise e \<Rightarrow> Throws e s | UB \<Rightarrow> Undefined | Diverge \<Rightarrow> Hangs)"

text \<open>\<^verbatim>\<open>v.size()\<close> as a \<^verbatim>\<open>size_t\<close>, and \<^verbatim>\<open>inds[i]\<close> as a buffer position.\<close>

definition size_of :: "'a list \<Rightarrow> uint_t" where
  "size_of xs = of_nat (length xs)"

definition ind :: "uint_t list \<Rightarrow> nat \<Rightarrow> nat option" where
  "ind inds i = map_option unat (rd inds i)"

section \<open>Gate kernels\<close>

text \<open>
  Each kernel is the body of one lambda of the source, as a function of the buffer
  positions it touches. Statements are kept in source order, so that a read after a write
  sees the written value.
\<close>

definition swap_kernel :: "nat \<Rightarrow> nat \<Rightarrow> cvector_t \<Rightarrow> cvector_t option" where
  "swap_kernel p0 p1 d = do { a \<leftarrow> rd d p0; b \<leftarrow> rd d p1; d1 \<leftarrow> wr d p0 b; wr d1 p1 a }"

definition y_kernel :: "nat \<Rightarrow> nat \<Rightarrow> cvector_t \<Rightarrow> cvector_t option" where
  "y_kernel p0 p1 d =
     do { cache \<leftarrow> rd d p0; b \<leftarrow> rd d p1; d1 \<leftarrow> wr d p0 ((- \<i>) * b); wr d1 p1 (\<i> * cache) }"

definition scale_kernel :: "nat \<Rightarrow> complex \<Rightarrow> cvector_t \<Rightarrow> cvector_t option" where
  "scale_kernel p z d = do { v \<leftarrow> rd d p; wr d p (v * z) }"

text \<open>
  The 2x2 update \<^verbatim>\<open>cache = data_[p0]; data_[p0] = m[0]*data_[p0] + m[2]*data_[p1];
  data_[p1] = m[1]*cache + m[3]*data_[p1]\<close>, and its diagonal form
  \<^verbatim>\<open>data_[p0] = diag[0]*data_[p0]; data_[p1] = diag[1]*data_[p1]\<close>.
\<close>

definition u2_kernel :: "nat \<Rightarrow> nat \<Rightarrow> cvector_t \<Rightarrow> cvector_t \<Rightarrow> cvector_t option" where
  "u2_kernel p0 p1 mat d =
     do {
       cache \<leftarrow> rd d p0;
       m0 \<leftarrow> rd mat 0; m2 \<leftarrow> rd mat 2; b \<leftarrow> rd d p1;
       d1 \<leftarrow> wr d p0 (m0 * cache + m2 * b);
       m1 \<leftarrow> rd mat 1; m3 \<leftarrow> rd mat 3; b1 \<leftarrow> rd d1 p1;
       wr d1 p1 (m1 * cache + m3 * b1)
     }"

definition diag2_kernel :: "nat \<Rightarrow> nat \<Rightarrow> cvector_t \<Rightarrow> cvector_t \<Rightarrow> cvector_t option" where
  "diag2_kernel p0 p1 diag d =
     do {
       e0 \<leftarrow> rd diag 0; a \<leftarrow> rd d p0;
       d1 \<leftarrow> wr d p0 (e0 * a);
       e1 \<leftarrow> rd diag 1; b \<leftarrow> rd d1 p1;
       wr d1 p1 (e1 * b)
     }"

text \<open>
  The phase kernels of the single-qubit diagonal gate, written in the source with the
  \<^verbatim>\<open>real()\<close> and \<^verbatim>\<open>imag()\<close> setters: multiplication by \<open>-i\<close> stores
  \<open>(im, -re)\<close>, multiplication by \<open>i\<close> stores \<open>(-im, re)\<close>.
\<close>

definition minus_i_kernel :: "nat \<Rightarrow> cvector_t \<Rightarrow> cvector_t option" where
  "minus_i_kernel k d = do { v \<leftarrow> rd d k; wr d k (Complex (Im v) (Re v * (- 1))) }"

definition plus_i_kernel :: "nat \<Rightarrow> cvector_t \<Rightarrow> cvector_t option" where
  "plus_i_kernel k d = do { v \<leftarrow> rd d k; wr d k (Complex (Im v * (- 1)) (Re v)) }"

text \<open>
  The dense kernel: load the \<open>DIM\<close> amplitudes of the block into \<open>cache\<close> and zero
  them, then accumulate \<^verbatim>\<open>data_[inds[i]] += mat[i + DIM * j] * cache[j]\<close> for
  \<open>i\<close> outer and \<open>j\<close> inner.
\<close>

definition dense_load :: "uint_t list \<Rightarrow> nat \<Rightarrow> cvector_t \<times> cvector_t \<Rightarrow> (cvector_t \<times> cvector_t) option" where
  "dense_load inds i cd =
     do {
       ii \<leftarrow> ind inds i;
       v \<leftarrow> rd (snd cd) ii;
       cache \<leftarrow> wr (fst cd) i v;
       d \<leftarrow> wr (snd cd) ii 0;
       Some (cache, d)
     }"

definition dense_acc :: "nat \<Rightarrow> cvector_t \<Rightarrow> uint_t list \<Rightarrow> cvector_t \<Rightarrow> nat \<Rightarrow> nat \<Rightarrow> cvector_t \<Rightarrow> cvector_t option" where
  "dense_acc DIM mat inds cache i j d =
     do {
       ii \<leftarrow> ind inds i;
       m \<leftarrow> rd mat (i + DIM * j);
       c \<leftarrow> rd cache j;
       v \<leftarrow> rd d ii;
       wr d ii (v + m * c)
     }"

definition dense_kernel :: "nat \<Rightarrow> cvector_t \<Rightarrow> uint_t list \<Rightarrow> cvector_t \<Rightarrow> cvector_t option" where
  "dense_kernel DIM mat inds d =
     do {
       cd \<leftarrow> forM [0..<DIM] (dense_load inds) (replicate DIM 0, d);
       forM [0..<DIM] (\<lambda>i. forM [0..<DIM] (dense_acc DIM mat inds (fst cd) i)) (snd cd)
     }"

definition diag_kernel :: "nat \<Rightarrow> cvector_t \<Rightarrow> uint_t list \<Rightarrow> cvector_t \<Rightarrow> cvector_t option" where
  "diag_kernel DIM mat inds d =
     forM [0..<DIM] (\<lambda>i d. do { k \<leftarrow> ind inds i; m \<leftarrow> rd mat i; scale_kernel k m d }) d"

definition perm_kernel :: "(uint_t \<times> uint_t) list \<Rightarrow> uint_t list \<Rightarrow> cvector_t \<Rightarrow> cvector_t option" where
  "perm_kernel pairs inds d =
     forM pairs (\<lambda>p d. do { a \<leftarrow> ind inds (unat (fst p)); b \<leftarrow> ind inds (unat (snd p));
                            swap_kernel a b d }) d"

section \<open>Gates\<close>

text \<open>
  In every gate the \<^verbatim>\<open>switch (N)\<close> chooses between fixed-size index arrays
  (\<^verbatim>\<open>areg_t\<close>) and the heap array for the same kernel text; the model has the kernel once.
\<close>

subsection \<open>Single-qubit matrices\<close>

text \<open>The test \<^verbatim>\<open>mat[1] == 0.0 && mat[2] == 0.0\<close>, with its short circuit.\<close>

definition is_diag2 :: "cvector_t \<Rightarrow> bool option" where
  "is_diag2 mat =
     do { m1 \<leftarrow> rd mat 1; if m1 = 0 then do { m2 \<leftarrow> rd mat 2; Some (m2 = 0) } else Some False }"

definition apply_diagonal_matrix1 :: "bool \<Rightarrow> uint_t \<Rightarrow> cvector_t \<Rightarrow> QubitVector \<Rightarrow> outcome" where
  "apply_diagonal_matrix1 dbg qubit diag s =
     opt (rd diag 0) (\<lambda>d0. opt (rd diag 1) (\<lambda>d1.
       if d0 = 1 then
         if d1 = 1 then Returns s
         else if d1 = Complex 0 (- 1) then
           apply_lambda dbg (\<lambda>inds d. ind inds 1 \<bind> (\<lambda>k. minus_i_kernel k d)) [qubit] s
         else if d1 = Complex 0 1 then
           apply_lambda dbg (\<lambda>inds d. ind inds 1 \<bind> (\<lambda>k. plus_i_kernel k d)) [qubit] s
         else if d0 = 0 then
           apply_lambda dbg (\<lambda>inds d. ind inds 1 \<bind> (\<lambda>k. wr d k 0)) [qubit] s
         else
           apply_lambda dbg (\<lambda>inds d. ind inds 1 \<bind> (\<lambda>k. scale_kernel k d1 d)) [qubit] s
       else if d1 = 1 then
         if d0 = Complex 0 (- 1) then
           apply_lambda dbg (\<lambda>inds d. ind inds 1 \<bind> (\<lambda>k. minus_i_kernel k d)) [qubit] s
         else if d0 = Complex 0 1 then
           apply_lambda dbg (\<lambda>inds d. ind inds 1 \<bind> (\<lambda>k. plus_i_kernel k d)) [qubit] s
         else if d0 = 0 then
           apply_lambda dbg (\<lambda>inds d. ind inds 0 \<bind> (\<lambda>k. wr d k 0)) [qubit] s
         else
           apply_lambda dbg (\<lambda>inds d. ind inds 0 \<bind> (\<lambda>k. scale_kernel k d0 d)) [qubit] s
       else
         apply_lambda dbg (\<lambda>inds d. do { k0 \<leftarrow> ind inds 0; k1 \<leftarrow> ind inds 1;
                                         d' \<leftarrow> scale_kernel k0 d0 d; scale_kernel k1 d1 d' })
           [qubit] s))"

definition apply_matrix1 :: "bool \<Rightarrow> uint_t \<Rightarrow> cvector_t \<Rightarrow> QubitVector \<Rightarrow> outcome" where
  "apply_matrix1 dbg qubit mat s =
     opt (is_diag2 mat) (\<lambda>dg.
       if dg then
         opt (rd mat 0) (\<lambda>m0. opt (rd mat 3) (\<lambda>m3. apply_diagonal_matrix1 dbg qubit [m0, m3] s))
       else
         apply_lambda dbg (\<lambda>inds d. do { pos0 \<leftarrow> ind inds 0; pos1 \<leftarrow> ind inds 1;
                                         u2_kernel pos0 pos1 mat d })
           [qubit] s)"

subsection \<open>Multi-qubit matrices\<close>

definition apply_matrix :: "bool \<Rightarrow> reg_t \<Rightarrow> cvector_t \<Rightarrow> QubitVector \<Rightarrow> outcome" where
  "apply_matrix dbg qubits mat s =
     checked (if dbg then check_vector mat (2 * length qubits) else Ok ()) s
       (if length qubits = 1 then opt (rd qubits 0) (\<lambda>q. apply_matrix1 dbg q mat s)
        else opt (BITS_at (length qubits)) (\<lambda>DIM.
               apply_lambda dbg (dense_kernel (unat DIM) mat) qubits s))"

definition apply_diagonal_matrix :: "bool \<Rightarrow> reg_t \<Rightarrow> cvector_t \<Rightarrow> QubitVector \<Rightarrow> outcome" where
  "apply_diagonal_matrix dbg qubits diag s =
     checked (if dbg then check_vector diag (length qubits) else Ok ()) s
       (if length qubits = 1 then opt (rd qubits 0) (\<lambda>q. apply_diagonal_matrix1 dbg q diag s)
        else opt (BITS_at (length qubits)) (\<lambda>DIM.
               apply_lambda dbg (diag_kernel (unat DIM) diag) qubits s))"

text \<open>
  \<^verbatim>\<open>apply_permutation_matrix\<close>: its \<^verbatim>\<open>DEBUG\<close> block names an undeclared identifier, so
  the function exists only in a build without \<^verbatim>\<open>DEBUG\<close>, which is what is modelled.
\<close>

definition apply_permutation_matrix :: "reg_t \<Rightarrow> (uint_t \<times> uint_t) list \<Rightarrow> QubitVector \<Rightarrow> outcome" where
  "apply_permutation_matrix qubits pairs s = apply_lambda False (perm_kernel pairs) qubits s"

subsection \<open>Multi-controlled gates\<close>

text \<open>
  \<^verbatim>\<open>pos0 = MASKS[N - 1]\<close> and \<^verbatim>\<open>pos1 = MASKS[N]\<close> with \<open>N\<close> a \<^verbatim>\<open>size_t\<close>: for an
  empty qubit list \<open>N - 1\<close> wraps around and the table access is out of range.
\<close>

definition apply_mcx :: "bool \<Rightarrow> reg_t \<Rightarrow> QubitVector \<Rightarrow> outcome" where
  "apply_mcx dbg qubits s =
     opt (MASKS_at (unat (size_of qubits - 1))) (\<lambda>pos0.
     opt (MASKS_at (unat (size_of qubits))) (\<lambda>pos1.
       apply_lambda dbg (\<lambda>inds d. do { a \<leftarrow> ind inds (unat pos0); b \<leftarrow> ind inds (unat pos1);
                                       swap_kernel a b d })
         qubits s))"

definition apply_mcy :: "bool \<Rightarrow> reg_t \<Rightarrow> QubitVector \<Rightarrow> outcome" where
  "apply_mcy dbg qubits s =
     opt (MASKS_at (unat (size_of qubits - 1))) (\<lambda>pos0.
     opt (MASKS_at (unat (size_of qubits))) (\<lambda>pos1.
       apply_lambda dbg (\<lambda>inds d. do { a \<leftarrow> ind inds (unat pos0); b \<leftarrow> ind inds (unat pos1);
                                       y_kernel a b d })
         qubits s))"

text \<open>
  \<^verbatim>\<open>apply_mcz\<close> writes \<^verbatim>\<open>inds[1]\<close>, \<^verbatim>\<open>inds[3]\<close>, \<^verbatim>\<open>inds[7]\<close> for \<open>N = 1, 2, 3\<close> and
  \<^verbatim>\<open>inds[MASKS[N]]\<close> otherwise; the literals are \<open>MASKS[1]\<close>, \<open>MASKS[2]\<close>, \<open>MASKS[3]\<close>.
\<close>

definition apply_mcz :: "bool \<Rightarrow> reg_t \<Rightarrow> QubitVector \<Rightarrow> outcome" where
  "apply_mcz dbg qubits s =
     opt (MASKS_at (unat (size_of qubits))) (\<lambda>pos1.
       apply_lambda dbg (\<lambda>inds d. ind inds (unat pos1) \<bind> (\<lambda>k. scale_kernel k (- 1) d)) qubits s)"

definition apply_mcswap :: "bool \<Rightarrow> reg_t \<Rightarrow> QubitVector \<Rightarrow> outcome" where
  "apply_mcswap dbg qubits s =
     opt (MASKS_at (unat (size_of qubits - 1))) (\<lambda>pos0.
     opt (BITS_at (unat (size_of qubits - 2))) (\<lambda>b.
       apply_lambda dbg (\<lambda>inds d. do { a \<leftarrow> ind inds (unat pos0); c \<leftarrow> ind inds (unat (pos0 + b));
                                       swap_kernel a c d })
         qubits s))"

text \<open>
  \<^verbatim>\<open>apply_mcu\<close>. For two or more qubits both the diagonal and the general lambda
  subscript the buffer with \<open>pos0\<close> and \<open>pos1\<close> themselves (\<^verbatim>\<open>data_[pos0]\<close>,
  \<^verbatim>\<open>data_[pos1]\<close>); the index table \<open>inds\<close> that the lambda receives is not used.
\<close>

definition apply_mcu :: "bool \<Rightarrow> reg_t \<Rightarrow> cvector_t \<Rightarrow> QubitVector \<Rightarrow> outcome" where
  "apply_mcu dbg qubits mat s =
     opt (MASKS_at (unat (size_of qubits - 1))) (\<lambda>pos0.
     opt (MASKS_at (unat (size_of qubits))) (\<lambda>pos1.
     opt (is_diag2 mat) (\<lambda>dg.
       if dg then
         opt (rd mat 0) (\<lambda>m0. opt (rd mat 3) (\<lambda>m3.
           if length qubits = 1
           then opt (rd qubits 0) (\<lambda>q. apply_diagonal_matrix1 dbg q [m0, m3] s)
           else apply_lambda dbg (\<lambda>inds. diag2_kernel (unat pos0) (unat pos1) [m0, m3]) qubits s))
       else
         if length qubits = 1
         then opt (rd qubits 0) (\<lambda>q. apply_matrix1 dbg q mat s)
         else apply_lambda dbg (\<lambda>inds. u2_kernel (unat pos0) (unat pos1) mat) qubits s)))"

section \<open>Matrix fusion\<close>

text \<open>
  \<^verbatim>\<open>swap_cols_and_rows(idx1, idx2, mat, dim)\<close>: for every \<open>first\<close> with bit \<open>idx1\<close> set
  and bit \<open>idx2\<close> clear, exchange the two runs \<^verbatim>\<open>mat[first * dim + i]\<close> and
  \<^verbatim>\<open>mat[second * dim + i]\<close>, then the two strided runs \<^verbatim>\<open>mat[i * dim + first]\<close> and
  \<^verbatim>\<open>mat[i * dim + second]\<close>, where \<open>second = (first ^ mask1) | mask2\<close>. All index
  arithmetic is \<^verbatim>\<open>uint_t\<close>.
\<close>

definition swap_cols_and_rows :: "uint_t \<Rightarrow> uint_t \<Rightarrow> cvector_t \<Rightarrow> uint_t \<Rightarrow> cvector_t option" where
  "swap_cols_and_rows idx1 idx2 mat DIM =
     do {
       mask1 \<leftarrow> BITS_at (unat idx1);
       mask2 \<leftarrow> BITS_at (unat idx2);
       forM (map of_nat [0..<unat DIM])
         (\<lambda>first m.
            if first AND mask1 \<noteq> 0 \<and> first AND mask2 = 0 then
              (let second = (first XOR mask1) OR mask2 in
               do {
                 m1 \<leftarrow> forM (map of_nat [0..<unat DIM])
                        (\<lambda>i. swap_kernel (unat (first * DIM + i)) (unat (second * DIM + i))) m;
                 forM (map of_nat [0..<unat DIM])
                   (\<lambda>i. swap_kernel (unat (i * DIM + first)) (unat (i * DIM + second))) m1
               })
            else Some m)
         mat
     }"

text \<open>
  The two search loops of \<^verbatim>\<open>sort_matrix\<close>. Each comparison reads \<^verbatim>\<open>sorted[from]\<close>
  (or \<^verbatim>\<open>sorted[to]\<close>), which is out of range when \<open>sorted\<close> is the shorter list.
\<close>

function find_from :: "reg_t \<Rightarrow> reg_t \<Rightarrow> nat \<Rightarrow> nat option" where
  "find_from current srtd from =
     (if from < length current then
        (case rd srtd from of
           None \<Rightarrow> None
         | Some v \<Rightarrow> if current ! from \<noteq> v then Some from
                     else find_from current srtd (Suc from))
      else Some from)"
  by pat_completeness auto
termination
  by (relation "measure (\<lambda>(current, srtd, from). length current - from)") auto

declare find_from.simps [simp del]

function find_to :: "reg_t \<Rightarrow> reg_t \<Rightarrow> nat \<Rightarrow> nat \<Rightarrow> nat option" where
  "find_to current srtd from to =
     (if to < length current then
        (case rd srtd to of
           None \<Rightarrow> None
         | Some v \<Rightarrow> if current ! from = v then Some to
                     else find_to current srtd from (Suc to))
      else Some to)"
  by pat_completeness auto
termination
  by (relation "measure (\<lambda>(current, srtd, from, to). length current - to)") auto

declare find_to.simps [simp del]

text \<open>
  The positions at which \<open>current\<close> still differs from \<open>sorted\<close>; their number is the
  termination measure of the \<^verbatim>\<open>while\<close> loop of \<^verbatim>\<open>sort_matrix\<close>.
\<close>

definition mismatches :: "reg_t \<Rightarrow> reg_t \<Rightarrow> nat set" where
  "mismatches current srtd = {i. i < length current \<and> i < length srtd \<and> current ! i \<noteq> srtd ! i}"

text \<open>
  The \<^verbatim>\<open>while (current != sorted)\<close> loop. An iteration that exchanges two equal entries
  of \<open>current\<close> leaves \<open>current\<close> as it was, so the loop repeats that iteration for
  ever (\<open>Diverge\<close>); every other iteration removes a mismatch.
\<close>

function sort_loop :: "reg_t \<Rightarrow> reg_t \<Rightarrow> cvector_t \<Rightarrow> uint_t \<Rightarrow> cvector_t result" where
  "sort_loop current srtd ret DIM =
     (if current = srtd then Ok ret
      else case find_from current srtd 0 of
        None \<Rightarrow> UB
      | Some frm \<Rightarrow>
          if frm = length current then Ok ret
          else case find_to current srtd frm (Suc frm) of
            None \<Rightarrow> UB
          | Some t \<Rightarrow>
              if t = length current
              then Raise (Runtime_error ''QubitVector<data_t>::sort_matrix we should not reach here'')
              else case swap_cols_and_rows (of_nat frm) (of_nat t) ret DIM of
                None \<Rightarrow> UB
              | Some ret' \<Rightarrow>
                  if current ! t = current ! frm then Diverge
                  else sort_loop (current[frm := current ! t, t := current ! frm]) srtd ret' DIM)"
  by pat_completeness auto
termination
proof (relation "measure (\<lambda>(current, srtd, ret, DIM). card (mismatches current srtd))")
  show "wf (measure (\<lambda>(current, srtd, ret, DIM). card (mismatches current srtd)))" by simp
next
  fix current srtd :: reg_t and ret :: cvector_t and DIM :: uint_t and frm t :: nat and ret' :: cvector_t
  assume a: "find_from current srtd 0 = Some frm" "frm \<noteq> length current"
    "find_to current srtd frm (Suc frm) = Some t" "t \<noteq> length current"
    "current ! t \<noteq> current ! frm"
  have find_from_Some:
    "find_from current srtd f0 = Some f \<Longrightarrow> f < length current
     \<Longrightarrow> f0 \<le> f \<and> f < length srtd \<and> current ! f \<noteq> srtd ! f"
    for current srtd f0 f
  proof (induction current srtd f0 rule: find_from.induct)
    case (1 current srtd frm)
    show ?case
    proof (cases "frm < length current")
      case True
      show ?thesis
      proof (cases "rd srtd frm")
        case None
        with True "1.prems" show ?thesis by (simp add: find_from.simps [of current srtd frm])
      next
        case (Some v)
        then have v: "frm < length srtd" "v = srtd ! frm"
          by (auto simp: rd_def split: if_splits)
        show ?thesis
        proof (cases "current ! frm = v")
          case False
          with True Some "1.prems" v show ?thesis
            by (simp add: find_from.simps [of current srtd frm])
        next
          case eq: True
          with True Some "1.prems" have "find_from current srtd (Suc frm) = Some f"
            by (simp add: find_from.simps [of current srtd frm])
          with "1.IH" [OF True Some] eq "1.prems"(2) show ?thesis by auto
        qed
      qed
    next
      case False
      with "1.prems" show ?thesis by (simp add: find_from.simps [of current srtd frm])
    qed
  qed
  have find_to_Some:
    "find_to current srtd frm t0 = Some t \<Longrightarrow> t < length current
     \<Longrightarrow> t0 \<le> t \<and> t < length srtd \<and> current ! frm = srtd ! t"
    for current srtd frm t0 t
  proof (induction current srtd frm t0 rule: find_to.induct)
    case (1 current srtd frm t0)
    show ?case
    proof (cases "t0 < length current")
      case True
      show ?thesis
      proof (cases "rd srtd t0")
        case None
        with True "1.prems" show ?thesis by (simp add: find_to.simps [of current srtd frm t0])
      next
        case (Some v)
        then have v: "t0 < length srtd" "v = srtd ! t0"
          by (auto simp: rd_def split: if_splits)
        show ?thesis
        proof (cases "current ! frm = v")
          case eq: True
          with True Some "1.prems" v show ?thesis
            by (simp add: find_to.simps [of current srtd frm t0])
        next
          case False
          with True Some "1.prems" have "find_to current srtd frm (Suc t0) = Some t"
            by (simp add: find_to.simps [of current srtd frm t0])
          with "1.IH" [OF True Some] False "1.prems"(2) show ?thesis by auto
        qed
      qed
    next
      case False
      with "1.prems" show ?thesis by (simp add: find_to.simps [of current srtd frm t0])
    qed
  qed
  have find_from_le:
    "find_from current srtd f0 = Some f \<Longrightarrow> f0 \<le> length current \<Longrightarrow> f \<le> length current"
    for current srtd f0 f
  proof (induction current srtd f0 rule: find_from.induct)
    case (1 current srtd frm)
    then show ?case
      by (simp add: find_from.simps [of current srtd frm] split: if_splits option.splits)
  qed
  have find_to_le:
    "find_to current srtd frm t0 = Some t \<Longrightarrow> t0 \<le> length current \<Longrightarrow> t \<le> length current"
    for current srtd frm t0 t
  proof (induction current srtd frm t0 rule: find_to.induct)
    case (1 current srtd frm t0)
    then show ?case
      by (simp add: find_to.simps [of current srtd frm t0] split: if_splits option.splits)
  qed
  have "frm \<le> length current" using a(1) by (rule find_from_le) simp
  then have frm: "frm < length current" using a(2) by simp
  have F: "frm < length srtd" "current ! frm \<noteq> srtd ! frm"
    using find_from_Some [OF a(1) frm] by simp_all
  have "t \<le> length current" using a(3) by (rule find_to_le) (use frm in simp)
  then have tl: "t < length current" using a(4) by simp
  have T: "Suc frm \<le> t" "t < length srtd" "current ! frm = srtd ! t"
    using find_to_Some [OF a(3) tl] by simp_all
  let ?c = "current[frm := current ! t, t := current ! frm]"
  have "t \<in> mismatches current srtd"
    using tl T a(5) by (simp add: mismatches_def)
  moreover have "t \<notin> mismatches ?c srtd"
    using tl T by (simp add: mismatches_def)
  moreover have "mismatches ?c srtd \<subseteq> mismatches current srtd"
  proof
    fix i assume i: "i \<in> mismatches ?c srtd"
    show "i \<in> mismatches current srtd"
    proof (cases "i = frm")
      case True
      then show ?thesis using frm F by (simp add: mismatches_def)
    next
      case False
      with i tl T show ?thesis
        by (cases "i = t") (auto simp: mismatches_def)
    qed
  qed
  ultimately have "mismatches ?c srtd \<subset> mismatches current srtd" by blast
  moreover have "finite (mismatches current srtd)" by (simp add: mismatches_def)
  ultimately have "card (mismatches ?c srtd) < card (mismatches current srtd)"
    by (rule psubset_card_mono [rotated])
  then show "((current[frm := current ! t, t := current ! frm], srtd, ret', DIM), current, srtd, ret, DIM)
       \<in> measure (\<lambda>(current, srtd, ret, DIM). card (mismatches current srtd))"
    by simp
qed

declare sort_loop.simps [simp del]

definition sort_matrix :: "reg_t \<Rightarrow> reg_t \<Rightarrow> cvector_t \<Rightarrow> cvector_t result" where
  "sort_matrix src srtd mat =
     (case BITS_at (length src) of None \<Rightarrow> UB | Some DIM \<Rightarrow> sort_loop src srtd mat DIM)"


text \<open>
  \<^verbatim>\<open>std::distance(v.begin(), std::find(v.begin(), v.end(), q))\<close>: the position of the
  first occurrence of \<open>q\<close>, or the length of \<open>v\<close> when there is none.
\<close>

definition find_index :: "reg_t \<Rightarrow> uint_t \<Rightarrow> nat" where
  "find_index v q = length (takeWhile (\<lambda>x. x \<noteq> q) v)"

text \<open>One assignment \<^verbatim>\<open>u[r + c * dst_dim] = m[a + b * src_dim]\<close> of \<^verbatim>\<open>expand_matrix\<close>.\<close>

definition put_entry ::
  "cvector_t \<Rightarrow> uint_t \<Rightarrow> uint_t \<Rightarrow> uint_t \<Rightarrow> uint_t \<Rightarrow> uint_t \<Rightarrow> uint_t \<Rightarrow> cvector_t \<Rightarrow> cvector_t option" where
  "put_entry m src_dim a b dst_dim r c u =
     do { v \<leftarrow> rd m (unat (a + b * src_dim)); wr u (unat (r + c * dst_dim)) v }"

text \<open>
  The body of the loop over \<open>i\<close> for a source of one qubit: skip a filled \<open>i\<close>, else
  write the four entries in source order and mark \<open>i + delta\<close> and \<open>i\<close>.
\<close>

definition expand_step1 ::
  "cvector_t \<Rightarrow> uint_t \<Rightarrow> uint_t \<Rightarrow> uint_t \<Rightarrow> uint_t \<Rightarrow> cvector_t \<times> bool list
     \<Rightarrow> (cvector_t \<times> bool list) option" where
  "expand_step1 vmat src_dim dst_dim delta i uf =
     do {
       f \<leftarrow> rd (snd uf) (unat i);
       if f then Some uf
       else do {
         u1 \<leftarrow> put_entry vmat src_dim 0 0 dst_dim i (i + 0) (fst uf);
         u2 \<leftarrow> put_entry vmat src_dim 0 1 dst_dim i (i + delta) u1;
         u3 \<leftarrow> put_entry vmat src_dim 1 0 dst_dim (i + delta) (i + 0) u2;
         u4 \<leftarrow> put_entry vmat src_dim 1 1 dst_dim (i + delta) (i + delta) u3;
         f1 \<leftarrow> wr (snd uf) (unat (i + delta)) True;
         f2 \<leftarrow> wr f1 (unat i) True;
         Some (u4, f2)
       }
     }"

text \<open>
  The same for a source of two qubits: the sixteen assignments run over the row offset
  (outer) and the column offset (inner), each taken from
  \<open>0, low_delta, high_delta, low_delta + high_delta\<close>.
\<close>

definition expand_step2 ::
  "cvector_t \<Rightarrow> uint_t \<Rightarrow> uint_t \<Rightarrow> uint_t \<Rightarrow> uint_t \<Rightarrow> uint_t \<Rightarrow> cvector_t \<times> bool list
     \<Rightarrow> (cvector_t \<times> bool list) option" where
  "expand_step2 sorted_vmat src_dim dst_dim low_delta high_delta i uf =
     do {
       f \<leftarrow> rd (snd uf) (unat i);
       if f then Some uf
       else do {
         u' \<leftarrow> forM [0, 1, 2, 3]
                 (\<lambda>a. forM [0, 1, 2, 3]
                    (\<lambda>b. put_entry sorted_vmat src_dim (of_nat a) (of_nat b) dst_dim
                            (i + [0, low_delta, high_delta, low_delta + high_delta] ! a)
                            (i + [0, low_delta, high_delta, low_delta + high_delta] ! b)))
                 (fst uf);
         f1 \<leftarrow> wr (snd uf) (unat i) True;
         f2 \<leftarrow> wr f1 (unat (i + low_delta)) True;
         f3 \<leftarrow> wr f2 (unat (i + high_delta)) True;
         f4 \<leftarrow> wr f3 (unat (i + low_delta + high_delta)) True;
         Some (u', f4)
       }
     }"

text \<open>
  \<^verbatim>\<open>expand_matrix(src_qubits, dst_sorted_qubits, vmat)\<close>. For two source qubits the
  matrix is first brought into ascending qubit order by \<^verbatim>\<open>sort_matrix\<close>, and
  \<open>low\<close> and \<open>high\<close> are then looked up from \<^verbatim>\<open>src_qubits[0]\<close> and
  \<^verbatim>\<open>src_qubits[1]\<close>, the caller's order.
\<close>

definition expand_matrix :: "reg_t \<Rightarrow> reg_t \<Rightarrow> cvector_t \<Rightarrow> cvector_t result" where
  "expand_matrix src_qubits dst_sorted_qubits vmat =
     (case (BITS_at (length dst_sorted_qubits), BITS_at (length src_qubits)) of
        (Some dst_dim, Some src_dim) \<Rightarrow>
          (let u = replicate (unat (dst_dim * dst_dim)) 0;
               filled = replicate (unat dst_dim) False
           in if length src_qubits = 1 then
                lift (do {
                  delta \<leftarrow> BITS_at (find_index dst_sorted_qubits (src_qubits ! 0));
                  uf \<leftarrow> forM (map of_nat [0..<unat dst_dim])
                          (expand_step1 vmat src_dim dst_dim delta) (u, filled);
                  Some (fst uf)
                })
              else if length src_qubits = 2 then
                (case sort_matrix src_qubits (sort src_qubits) vmat of
                   Ok sorted_vmat \<Rightarrow>
                     lift (do {
                       low_delta \<leftarrow> BITS_at (find_index dst_sorted_qubits (src_qubits ! 0));
                       high_delta \<leftarrow> BITS_at (find_index dst_sorted_qubits (src_qubits ! 1));
                       uf \<leftarrow> forM (map of_nat [0..<unat dst_dim])
                               (expand_step2 sorted_vmat src_dim dst_dim low_delta high_delta)
                               (u, filled);
                       Some (fst uf)
                     })
                 | Raise e \<Rightarrow> Raise e
                 | UB \<Rightarrow> UB
                 | Diverge \<Rightarrow> Diverge)
              else Raise (Runtime_error (''Fusion::illegal qubit number:'' @
                                         to_string (length src_qubits))))
      | _ \<Rightarrow> UB)"

text \<open>
  The parts of \<^verbatim>\<open>apply_matrix_sequence\<close>: the fallback loop
  \<^verbatim>\<open>apply_matrix(regs[i], mats[i])\<close>, the list of distinct qubits in order of first
  appearance, the loop filling \<open>sorted_mats\<close>, and the product
  \<^verbatim>\<open>u_tmp[i + j * dim] += u[i + k * dim] * U[k + j * dim]\<close>.
\<close>

fun apply_each :: "bool \<Rightarrow> reg_t list \<Rightarrow> cvector_t list \<Rightarrow> QubitVector \<Rightarrow> outcome" where
  "apply_each dbg [] mats s = Returns s"
| "apply_each dbg (reg # regs) [] s = Undefined"
| "apply_each dbg (reg # regs) (mat # mats) s =
     (case apply_matrix dbg reg mat s of
        Returns s' \<Rightarrow> apply_each dbg regs mats s'
      | other \<Rightarrow> other)"

definition collect_qubits :: "reg_t list \<Rightarrow> reg_t" where
  "collect_qubits regs =
     foldl (\<lambda>acc qubit. if qubit \<in> set acc then acc else acc @ [qubit]) [] (concat regs)"

fun expand_all :: "reg_t list \<Rightarrow> cvector_t list \<Rightarrow> reg_t \<Rightarrow> cvector_t list result" where
  "expand_all [] mats sorted_qubits = Ok []"
| "expand_all (reg # regs) [] sorted_qubits = UB"
| "expand_all (reg # regs) (mat # mats) sorted_qubits =
     (case expand_matrix reg sorted_qubits mat of
        Ok m \<Rightarrow> (case expand_all regs mats sorted_qubits of
                    Ok ms \<Rightarrow> Ok (m # ms)
                  | other \<Rightarrow> other)
      | Raise e \<Rightarrow> Raise e
      | UB \<Rightarrow> UB
      | Diverge \<Rightarrow> Diverge)"

definition mat_acc :: "uint_t \<Rightarrow> cvector_t \<Rightarrow> cvector_t \<Rightarrow> uint_t \<Rightarrow> uint_t \<Rightarrow> uint_t \<Rightarrow> cvector_t \<Rightarrow> cvector_t option" where
  "mat_acc DIM u U i j k u_tmp =
     do {
       a \<leftarrow> rd u (unat (i + k * DIM));
       b \<leftarrow> rd U (unat (k + j * DIM));
       t \<leftarrow> rd u_tmp (unat (i + j * DIM));
       wr u_tmp (unat (i + j * DIM)) (t + a * b)
     }"

definition mat_mul :: "uint_t \<Rightarrow> cvector_t \<Rightarrow> cvector_t \<Rightarrow> cvector_t option" where
  "mat_mul DIM u U =
     forM (map of_nat [0..<unat DIM])
       (\<lambda>i. forM (map of_nat [0..<unat DIM])
          (\<lambda>j. forM (map of_nat [0..<unat DIM]) (mat_acc DIM u U i j)))
       (replicate (length U) 0)"

text \<open>
  \<^verbatim>\<open>apply_matrix_sequence(regs, mats)\<close>. The early return on an empty \<open>mats\<close> comes
  first. Under \<^verbatim>\<open>DEBUG\<close> the size check ends in a semicolon, so the \<^verbatim>\<open>throw\<close> after it
  is unconditional.
\<close>

definition apply_matrix_sequence :: "bool \<Rightarrow> reg_t list \<Rightarrow> cvector_t list \<Rightarrow> QubitVector \<Rightarrow> outcome" where
  "apply_matrix_sequence dbg regs mats s =
     (if length mats = 0 then Returns s
      else if dbg then
        Throws (Runtime_error
          ''QubitVector<data_t>::apply_matrix_sequence allows same size of qubitss and mats.'') s
      else if \<not> list_all (\<lambda>reg. \<not> length reg > 2) regs then apply_each dbg regs mats s
      else
        (let sorted_qubits = sort (collect_qubits regs) in
         case expand_all regs mats sorted_qubits of
           Raise e \<Rightarrow> Throws e s
         | UB \<Rightarrow> Undefined
         | Diverge \<Rightarrow> Hangs
         | Ok sorted_mats \<Rightarrow>
             (case sorted_mats of
                [] \<Rightarrow> Undefined
              | U0 # rest \<Rightarrow>
                  opt (BITS_at (length sorted_qubits)) (\<lambda>DIM.
                  opt (forM rest (\<lambda>u U. mat_mul DIM u U) U0) (\<lambda>U.
                    apply_matrix dbg sorted_qubits U s)))))"

section \<open>Checkpoint operations\<close>

text \<open>
  \<^verbatim>\<open>malloc(sizeof(complex_t) * data_size_)\<close>: the byte count is computed in
  \<^verbatim>\<open>size_t\<close> with \<open>sizeof(complex_t) = 16\<close>, and the block holds that many bytes'
  worth of amplitudes. The content of a fresh block is indeterminate; it is taken as 0,
  and \<^verbatim>\<open>checkpoint()\<close> overwrites it before anything reads it.
\<close>

definition malloc_amplitudes :: "uint_t \<Rightarrow> cvector_t" where
  "malloc_amplitudes n = replicate (unat (16 * n) div 16) 0"

text \<open>The loop \<^verbatim>\<open>for (k = 0; k < END; ++k) dst[k] = src[k]\<close>.\<close>

definition copy_loop :: "int \<Rightarrow> cvector_t \<Rightarrow> cvector_t \<Rightarrow> cvector_t option" where
  "copy_loop END src dst = forM [0..<nat END] (\<lambda>k d. do { v \<leftarrow> rd src k; wr d k v }) dst"

definition checkpoint :: "QubitVector \<Rightarrow> outcome" where
  "checkpoint s =
     (let buf = (case checkpoint_m s of
                   None \<Rightarrow> malloc_amplitudes (data_size_m s)
                 | Some c \<Rightarrow> c)
      in case copy_loop (sint (data_size_m s)) (data_m s) buf of
           None \<Rightarrow> Undefined
         | Some c \<Rightarrow> Returns (s\<lparr>checkpoint_m := Some c\<rparr>))"

text \<open>
  \<^verbatim>\<open>revert(keep)\<close>: \<^verbatim>\<open>check_checkpoint()\<close> is compiled only under \<^verbatim>\<open>DEBUG\<close>. Without
  it a null \<open>checkpoint_\<close> is read by the copy loop, which is undefined behaviour as
  soon as the loop runs once.
\<close>

definition revert :: "bool \<Rightarrow> bool \<Rightarrow> QubitVector \<Rightarrow> outcome" where
  "revert dbg keep s =
     (case (if dbg then check_checkpoint s else None) of
        Some e \<Rightarrow> Throws e s
      | None \<Rightarrow>
          (case copy_loop (sint (data_size_m s))
                  (case checkpoint_m s of None \<Rightarrow> [] | Some c \<Rightarrow> c) (data_m s) of
             None \<Rightarrow> Undefined
           | Some d \<Rightarrow>
               Returns (s\<lparr>data_m := d,
                          checkpoint_m := (if keep then checkpoint_m s else None)\<rparr>)))"

text \<open>
  \<^verbatim>\<open>inner_product()\<close> through \<^verbatim>\<open>apply_reduction_lambda\<close>: the two accumulators
  \<open>val_re\<close> and \<open>val_im\<close> start at 0 and take the real and imaginary part of
  \<^verbatim>\<open>data_[k] * conj(checkpoint_[k])\<close> for \<open>k = 0 .. END - 1\<close>.
\<close>

definition inner_product :: "bool \<Rightarrow> QubitVector \<Rightarrow> complex result" where
  "inner_product dbg s =
     (case (if dbg then check_checkpoint s else None) of
        Some e \<Rightarrow> Raise e
      | None \<Rightarrow>
          (case forM [0..<nat (sint (data_size_m s))]
                  (\<lambda>k acc. do {
                     a \<leftarrow> rd (data_m s) k;
                     b \<leftarrow> rd (case checkpoint_m s of None \<Rightarrow> [] | Some c \<Rightarrow> c) k;
                     Some (fst acc + Re (a * cnj b), snd acc + Im (a * cnj b))
                   })
                  (0, 0) of
             None \<Rightarrow> UB
           | Some acc \<Rightarrow> Ok (Complex (fst acc) (snd acc))))"

section \<open>Element access, configuration and serialization\<close>

text \<open>
  \<^verbatim>\<open>operator[](element)\<close>, in both its overloads: the bounds check exists only under
  \<^verbatim>\<open>DEBUG\<close> and compares with \<^verbatim>\<open>>\<close>.
\<close>

definition element_at :: "bool \<Rightarrow> QubitVector \<Rightarrow> uint_t \<Rightarrow> complex result" where
  "element_at dbg s element =
     (if dbg \<and> element > data_size_m s
      then Raise (Runtime_error (''QubitVector: vector index '' @ to_string (unat element) @
                                 '' > '' @ to_string (unat (data_size_m s))))
      else lift (rd (data_m s) (unat element)))"

text \<open>
  The setters take a C++ \<^verbatim>\<open>int\<close> (32 bits, read with \<open>sint\<close>); the assignment to the
  \<^verbatim>\<open>uint_t\<close> member converts it by sign extension.
\<close>

definition set_omp_threads :: "32 word \<Rightarrow> QubitVector \<Rightarrow> QubitVector" where
  "set_omp_threads n s = (if sint n > 0 then s\<lparr>omp_threads_m := scast n\<rparr> else s)"

definition set_omp_threshold :: "32 word \<Rightarrow> QubitVector \<Rightarrow> QubitVector" where
  "set_omp_threshold n s = (if sint n > 0 then s\<lparr>omp_threshold_m := scast n\<rparr> else s)"





section \<open>Sampling\<close>







section \<open>Sequences of gate applications\<close>

text \<open>The gate-applying members of the class, as one datatype of calls.\<close>

datatype gate =
    Matrix1 uint_t cvector_t
  | Matrix reg_t cvector_t
  | Matrix_sequence "reg_t list" "cvector_t list"
  | Diagonal1 uint_t cvector_t
  | Diagonal reg_t cvector_t
  | Permutation reg_t "(uint_t \<times> uint_t) list"
  | MCX reg_t
  | MCY reg_t
  | MCZ reg_t
  | MCU reg_t cvector_t
  | MCSWAP reg_t

fun apply_gate :: "bool \<Rightarrow> gate \<Rightarrow> QubitVector \<Rightarrow> outcome" where
  "apply_gate dbg (Matrix1 q m) s = apply_matrix1 dbg q m s"
| "apply_gate dbg (Matrix qs m) s = apply_matrix dbg qs m s"
| "apply_gate dbg (Matrix_sequence regs mats) s = apply_matrix_sequence dbg regs mats s"
| "apply_gate dbg (Diagonal1 q m) s = apply_diagonal_matrix1 dbg q m s"
| "apply_gate dbg (Diagonal qs m) s = apply_diagonal_matrix dbg qs m s"
| "apply_gate dbg (Permutation qs ps) s = apply_permutation_matrix qs ps s"
| "apply_gate dbg (MCX qs) s = apply_mcx dbg qs s"
| "apply_gate dbg (MCY qs) s = apply_mcy dbg qs s"
| "apply_gate dbg (MCZ qs) s = apply_mcz dbg qs s"
| "apply_gate dbg (MCU qs m) s = apply_mcu dbg qs m s"
| "apply_gate dbg (MCSWAP qs) s = apply_mcswap dbg qs s"

fun apply_gates :: "bool \<Rightarrow> gate list \<Rightarrow> QubitVector \<Rightarrow> outcome" where
  "apply_gates dbg [] s = Returns s"
| "apply_gates dbg (g # gs) s =
     (case apply_gate dbg g s of
        Returns s' \<Rightarrow> apply_gates dbg gs s'
      | other \<Rightarrow> other)"

text \<open>
  The class invariant used by the theorems, as \<^verbatim>\<open>set_num_qubits\<close> establishes it:
  \<open>data_size_ = BITS[num_qubits_]\<close>, the byte count \<open>16 * data_size_\<close> of the buffer
  fits \<^verbatim>\<open>size_t\<close>, the buffer holds \<open>data_size_\<close> amplitudes, and a checkpoint
  buffer, when present, has the same length.
\<close>

definition invariant :: "QubitVector \<Rightarrow> bool" where
  "invariant s \<longleftrightarrow>
     BITS_at (unat (num_qubits_m s)) = Some (data_size_m s) \<and>
     unat (data_size_m s) < 2 ^ 60 \<and>
     length (data_m s) = unat (data_size_m s) \<and>
     (case checkpoint_m s of None \<Rightarrow> True | Some c \<Rightarrow> length c = length (data_m s))"

text \<open>
  The object of \<open>n\<close> qubits with the default configuration
  (\<open>omp_threads_ = 1\<close>, \<open>omp_threshold_ = 14\<close>, \<open>sample_measure_index_size_ = 10\<close>,
  \<open>json_chop_threshold_ = 0\<close>), no checkpoint, and the buffer \<open>d\<close>.
\<close>

definition default_qv :: "nat \<Rightarrow> cvector_t \<Rightarrow> QubitVector" where
  "default_qv n d =
     \<lparr>num_qubits_m = of_nat n, data_size_m = 2 ^ n, data_m = d, checkpoint_m = None,
      omp_threads_m = 1, omp_threshold_m = 14, sample_measure_index_size_m = 10,
      json_chop_threshold_m = 0\<rparr>"

section \<open>Specification-side definitions\<close>

text \<open>
  The specification's wording of \<open>index0\<close>: inserting a 0 bit into \<open>n\<close> at position
  \<open>q\<close> keeps the \<open>q\<close> low bits and moves the rest up by one place; \<open>spec_index0\<close>
  inserts at each listed position in list order.
\<close>

definition insert_zero_bit :: "nat \<Rightarrow> nat \<Rightarrow> nat" where
  "insert_zero_bit q n = (n div 2 ^ q) * 2 ^ (q + 1) + n mod 2 ^ q"

definition spec_index0 :: "nat list \<Rightarrow> nat \<Rightarrow> nat" where
  "spec_index0 qs k = fold insert_zero_bit qs k"

text \<open>
  An entry \<open>v\<close> of the index table is \<open>r\<close> with bit \<open>Qu ! j\<close> set for each \<open>j < i\<close>
  at which bit \<open>j\<close> of the table position \<open>x\<close> is 1.
\<close>

definition index_entry :: "uint_t \<Rightarrow> reg_t \<Rightarrow> nat \<Rightarrow> nat \<Rightarrow> uint_t \<Rightarrow> bool" where
  "index_entry r Qu i x v \<longleftrightarrow>
     (\<forall>p. bit v p \<longleftrightarrow> bit r p \<or> (\<exists>j<i. bit x j \<and> unat (Qu ! j) = p))"




text \<open>
  Frame conditions: a kernel keeps the length of the buffer, and an operation changes no
  member of the object other than the content of the state buffer.
\<close>

definition lenp :: "(cvector_t \<Rightarrow> cvector_t option) \<Rightarrow> bool" where
  "lenp f \<longleftrightarrow> (\<forall>d d'. f d = Some d' \<longrightarrow> length d' = length d)"

definition frame :: "QubitVector \<Rightarrow> QubitVector \<Rightarrow> bool" where
  "frame s s' \<longleftrightarrow> s' = s\<lparr>data_m := data_m s'\<rparr> \<and> length (data_m s') = length (data_m s)"

section \<open>Facts about the class invariant\<close>


lemma sint_small:
  fixes w :: uint_t
  assumes "unat w < 2 ^ 63"
  shows "sint w = int (unat w)"
proof -
  have u: "uint w = int (unat w)" by simp
  have "int (unat w) < int (2 ^ 63)" using assms by (simp only: of_nat_less_iff)
  then have lt: "uint w < 2 ^ 63" by (simp only: u) simp
  have "sint w = signed_take_bit 63 (uint w)"
    by (simp only: sint_uint) simp
  also have "\<dots> = uint w"
  proof (rule signed_take_bit_int_eq_self)
    show "- (2 ^ 63) \<le> uint w" by (rule order_trans [of _ 0]) simp_all
    show "uint w < 2 ^ 63" by (rule lt)
  qed
  finally show ?thesis by (simp only: u)
qed

lemma invariant_sint: "invariant s \<Longrightarrow> sint (data_size_m s) = int (unat (data_size_m s))"
proof -
  assume "invariant s"
  then have lt: "unat (data_size_m s) < 2 ^ 60" by (simp add: invariant_def)
  have "(2::nat) ^ 60 \<le> 2 ^ 63" by simp
  with lt have "unat (data_size_m s) < 2 ^ 63" by (rule less_le_trans)
  then show ?thesis by (rule sint_small)
qed




section \<open>The bit-index algebra is correct\<close>

text \<open>The two tables hold the powers of two and the low-bit masks.\<close>

lemma all_less_64: "(\<forall>i<64. P (i::nat)) = list_all P [0..<64]"
  by (auto simp: list_all_iff)

lemma BITS_nth: "i < 64 \<Longrightarrow> BITS ! i = push_bit i 1"
proof -
  have "\<forall>i<64. BITS ! i = push_bit i 1"
    unfolding all_less_64 by code_simp
  then show "i < 64 \<Longrightarrow> BITS ! i = push_bit i 1" by blast
qed

lemma MASKS_nth: "i < 64 \<Longrightarrow> MASKS ! i = mask i"
proof -
  have "\<forall>i<64. MASKS ! i = mask i"
    unfolding all_less_64 by code_simp
  then show "i < 64 \<Longrightarrow> MASKS ! i = mask i" by blast
qed

lemma BITS_at_Some: "i < 64 \<Longrightarrow> BITS_at i = Some (push_bit i 1)"
  by (simp add: BITS_at_def BITS_nth)

lemma MASKS_at_Some: "i < 64 \<Longrightarrow> MASKS_at i = Some (mask i)"
  by (simp add: MASKS_at_def MASKS_nth)

lemma unat_BITS: "i < 64 \<Longrightarrow> unat (push_bit i 1 :: uint_t) = 2 ^ i"
proof -
  assume i: "i < 64"
  have "unat (push_bit i 1 :: uint_t) = take_bit 64 (push_bit i (1::nat))"
    by (simp only: unsigned_push_bit_eq) simp
  also have "\<dots> = push_bit i 1"
  proof (rule take_bit_nat_eq_self)
    have "(2::nat) ^ i < 2 ^ 64" using i by (simp only: power_strict_increasing_iff) 
    then show "push_bit i (1::nat) < 2 ^ 64" by (simp only: push_bit_eq_mult mult_1)
  qed
  finally show ?thesis by (simp add: push_bit_eq_mult)
qed

lemma unat_two_power: "i < 64 \<Longrightarrow> unat (2 ^ i :: uint_t) = 2 ^ i"
  using unat_BITS [of i] by (simp add: push_bit_eq_mult)

lemma insert_zero_bit_alt:
  "insert_zero_bit q n = push_bit (Suc q) (drop_bit q n) OR take_bit q n"
proof -
  have "push_bit (Suc q) (drop_bit q n) + take_bit q n = push_bit (Suc q) (drop_bit q n) OR take_bit q n"
    by (rule disjunctive_add) (auto simp: bit_simps)
  then show ?thesis
    by (simp add: insert_zero_bit_def push_bit_eq_mult drop_bit_eq_div take_bit_eq_mod)
qed

lemma bit_insert_zero_bit:
  "bit (insert_zero_bit q n) p \<longleftrightarrow> (if p < q then bit n p else p \<noteq> q \<and> bit n (p - 1))"
proof -
  have "bit (insert_zero_bit q n) p \<longleftrightarrow> (Suc q \<le> p \<and> bit n (q + (p - Suc q))) \<or> (p < q \<and> bit n p)"
    by (simp only: insert_zero_bit_alt bit_or_iff bit_push_bit_iff bit_drop_bit_eq bit_take_bit_iff possible_bit_nat o_def simp_thms) 
  moreover have "Suc q \<le> p \<Longrightarrow> q + (p - Suc q) = p - 1" by simp
  ultimately show ?thesis by (cases "p < q"; cases "p = q"; simp add: not_less Suc_le_eq)
qed

lemma insert_zero_bit_less:
  assumes "n < 2 ^ m" shows "insert_zero_bit q n < 2 ^ Suc m"
proof -
  have "insert_zero_bit q n = 2 * ((n div 2 ^ q) * 2 ^ q) + n mod 2 ^ q"
    by (simp add: insert_zero_bit_def)
  also have "\<dots> \<le> 2 * ((n div 2 ^ q) * 2 ^ q) + 2 * (n mod 2 ^ q)" by simp
  also have "\<dots> = 2 * ((n div 2 ^ q) * 2 ^ q + n mod 2 ^ q)" by simp
  also have "\<dots> = 2 * n" by (simp only: div_mult_mod_eq)
  finally show ?thesis using assms by simp
qed

lemma index0_step_word:
  fixes w :: uint_t
  shows "push_bit (Suc q) (drop_bit q w) OR (w AND mask q) = word_of_nat (insert_zero_bit q (unat w))"
proof (rule bit_word_eqI)
  fix p assume p: "p < LENGTH(64)"
  have "bit (push_bit (Suc q) (drop_bit q w) OR (w AND mask q)) p
        \<longleftrightarrow> (Suc q \<le> p \<and> bit w (q + (p - Suc q))) \<or> (bit w p \<and> p < q)"
    using p by (simp only: bit_or_iff bit_push_bit_iff bit_drop_bit_eq bit_and_iff bit_mask_iff possible_bit_word o_def simp_thms)
  moreover have "Suc q \<le> p \<Longrightarrow> q + (p - Suc q) = p - 1" by simp
  moreover have "bit (word_of_nat (insert_zero_bit q (unat w)) :: uint_t) p
        \<longleftrightarrow> bit (insert_zero_bit q (unat w)) p"
    using p by (simp only: bit_of_nat_iff possible_bit_word simp_thms)
  moreover have "\<And>i. bit (unat w) i = bit w i"
    by (simp add: bit_unsigned_iff)
  ultimately show "bit (push_bit (Suc q) (drop_bit q w) OR (w AND mask q)) p
     = bit (word_of_nat (insert_zero_bit q (unat w)) :: uint_t) p"
    by (cases "p < q"; cases "p = q"; simp add: bit_insert_zero_bit not_less Suc_le_eq)
qed

lemma unat_word_of_nat_64: "n < 2 ^ 64 \<Longrightarrow> unat (word_of_nat n :: uint_t) = n"
  by (simp add: unat_of_nat)

lemma unat_succ_qubit: "unat (q :: uint_t) < 63 \<Longrightarrow> unat (q + 1) = Suc (unat q)"
  by (simp add: unat_word_ariths)

lemma index0_refines:
  "\<lbrakk>\<forall>q\<in>set Q. unat q < 63; unat k < 2 ^ m; m + length Q \<le> 63\<rbrakk>
   \<Longrightarrow> \<exists>r. index0 Q k = Some r \<and> unat r = spec_index0 (map unat Q) (unat k)
          \<and> unat r < 2 ^ (m + length Q)"
proof (induction Q arbitrary: k m)
  case Nil
  then show ?case by (simp add: spec_index0_def)
next
  case (Cons q Q)
  let ?w = "push_bit (Suc (unat q)) (drop_bit (unat q) k) OR (k AND mask (unat q))"
  have q: "unat q < 63" using Cons.prems by simp
  have lt: "insert_zero_bit (unat q) (unat k) < 2 ^ Suc m"
    using Cons.prems(2) by (rule insert_zero_bit_less)
  have "(2::nat) ^ Suc m \<le> 2 ^ 64"
    using Cons.prems(3) by (intro power_increasing) simp_all
  with lt have "insert_zero_bit (unat q) (unat k) < 2 ^ 64" by linarith
  then have u: "unat ?w = insert_zero_bit (unat q) (unat k)"
    by (simp only: index0_step_word unat_word_of_nat_64)
  have step: "index0 (q # Q) k = index0 Q ?w"
    using q by (simp add: MASKS_at_Some shr_def shl_def unat_succ_qubit)
  have "\<exists>r. index0 Q ?w = Some r \<and> unat r = spec_index0 (map unat Q) (unat ?w)
          \<and> unat r < 2 ^ (Suc m + length Q)"
  proof (rule Cons.IH)
    show "\<forall>q\<in>set Q. unat q < 63" using Cons.prems(1) by simp
    show "unat ?w < 2 ^ Suc m" using lt by (simp only: u)
    show "Suc m + length Q \<le> 63" using Cons.prems(3) by simp
  qed
  then obtain r where r: "index0 Q ?w = Some r"
      "unat r = spec_index0 (map unat Q) (unat ?w)" "unat r < 2 ^ (Suc m + length Q)"
    by blast
  have "index0 (q # Q) k = Some r" by (simp only: step r(1))
  moreover have "unat r = spec_index0 (map unat (q # Q)) (unat k)"
    by (simp only: r(2) u) (simp add: spec_index0_def)
  moreover have "unat r < 2 ^ (m + length (q # Q))" using r(3) by simp
  ultimately show ?case by blast
qed


lemma forM_append: "forM (xs @ ys) body s = forM xs body s \<bind> forM ys body"
proof (induction xs arbitrary: s)
  case Nil
  then show ?case by simp
next
  case (Cons a xs)
  then show ?case by (cases "body a s") simp_all
qed

lemma forM_single: "forM [i] body s = body i s"
  by (cases "body i s") simp_all

lemma forM_upt_Suc: "forM [0..<Suc m] body s = forM [0..<m] body s \<bind> body m"
proof -
  have "forM [m] body = body m" by (rule ext) (rule forM_single)
  then show ?thesis by (simp add: forM_append)
qed

lemma indexes_inner_loop:
  assumes "m \<le> unat n" "unat n + unat n \<le> length ret"
  shows "\<exists>ret'. forM [0..<m] (indexes_inner n b) ret = Some ret' \<and> length ret' = length ret
           \<and> (\<forall>j<m. ret' ! (unat n + j) = ret ! j OR b) \<and> (\<forall>x<unat n. ret' ! x = ret ! x)"
  using assms(1)
proof (induction m)
  case 0
  then show ?case by simp
next
  case (Suc m)
  then obtain r1 where r1: "forM [0..<m] (indexes_inner n b) ret = Some r1" "length r1 = length ret"
     "\<forall>j<m. r1 ! (unat n + j) = ret ! j OR b" "\<forall>x<unat n. r1 ! x = ret ! x"
    by auto
  have m: "m < unat n" using Suc.prems by simp
  let ?r2 = "r1[unat n + m := ret ! m OR b]"
  have "indexes_inner n b m r1 = Some ?r2"
    using m assms(2) r1(2) r1(4) by (simp add: indexes_inner_def rd_def wr_def)
  then have "forM [0..<Suc m] (indexes_inner n b) ret = Some ?r2"
    by (simp only: forM_upt_Suc r1(1)) simp
  moreover have "length ?r2 = length ret" using r1(2) by simp
  moreover have "\<forall>j<Suc m. ?r2 ! (unat n + j) = ret ! j OR b"
    using r1(2) r1(3) m assms(2) by (auto simp: nth_list_update less_Suc_eq)
  moreover have "\<forall>x<unat n. ?r2 ! x = ret ! x"
    using r1(4) by (simp add: nth_list_update)
  ultimately show ?case by blast
qed


lemma not_bit_small: "(x::nat) < 2 ^ i \<Longrightarrow> \<not> bit x i"
  by (simp add: bit_iff_odd)

lemma bit_upper_half:
  assumes "(j::nat) < 2 ^ i"
  shows "bit (2 ^ i + j) p \<longleftrightarrow> p = i \<or> bit j p"
proof -
  have "(2::nat) ^ i + j = 2 ^ i OR j"
    by (rule disjunctive_add) (use assms in \<open>auto simp: bit_exp_iff dest: not_bit_small\<close>)
  then show ?thesis by (auto simp: bit_or_iff bit_exp_iff)
qed

lemma bit_BITS: "q < 64 \<Longrightarrow> bit (2 ^ q :: uint_t) p \<longleftrightarrow> p = q"
  by (auto simp: bit_exp_iff possible_bit_word)

lemma indexes_outer_loop:
  assumes Q: "\<forall>q\<in>set Qu. unat q < 64" and M: "length Qu < 64"
    and len: "length ret = 2 ^ length Qu" and r0: "ret ! 0 = r"
    and i: "i \<le> length Qu"
  shows "\<exists>ret'. forM [0..<i] (indexes_outer Qu) ret = Some ret' \<and> length ret' = length ret
           \<and> (\<forall>x<2 ^ i. index_entry r Qu i x (ret' ! x))"
  using i
proof (induction i)
  case 0
  then show ?case using r0 by (simp add: index_entry_def)
next
  case (Suc i)
  then obtain r1 where r1: "forM [0..<i] (indexes_outer Qu) ret = Some r1" "length r1 = length ret"
      "\<forall>x<2 ^ i. index_entry r Qu i x (r1 ! x)"
    by auto
  have i: "i < length Qu" "i < 64" using Suc.prems M by simp_all
  have q: "unat (Qu ! i) < 64" using Q i(1) by simp
  let ?n = "push_bit i 1 :: uint_t" and ?b = "push_bit (unat (Qu ! i)) 1 :: uint_t"
  have n: "unat ?n = 2 ^ i" using i(2) by (rule unat_BITS)
  have "(2::nat) ^ Suc i \<le> 2 ^ length Qu"
    using i(1) by (intro power_increasing) simp_all
  then have room: "unat ?n + unat ?n \<le> length r1"
    by (simp only: n r1(2) len) simp
  from indexes_inner_loop [OF order_refl room, of ?b]
  obtain r2 where r2: "forM [0..<unat ?n] (indexes_inner ?n ?b) r1 = Some r2" "length r2 = length r1"
      "\<forall>j<unat ?n. r2 ! (unat ?n + j) = r1 ! j OR ?b" "\<forall>x<unat ?n. r2 ! x = r1 ! x"
    by blast
  have outer: "indexes_outer Qu i r1 = Some r2"
    using i q r2(1) by (simp add: indexes_outer_def BITS_at_Some rd_def)
  have run: "forM [0..<Suc i] (indexes_outer Qu) ret = Some r2"
    by (simp only: forM_upt_Suc r1(1)) (simp add: outer)
  have ent: "index_entry r Qu (Suc i) x (r2 ! x)" if x: "x < 2 ^ Suc i" for x
  proof (cases "x < 2 ^ i")
    case True
    then have "r2 ! x = r1 ! x" using r2(4) n by simp
    moreover have "index_entry r Qu i x (r1 ! x)" using r1(3) True by simp
    moreover have "\<not> bit x i" using True by (rule not_bit_small)
    ultimately show ?thesis
      by (auto simp: index_entry_def less_Suc_eq)
  next
    case False
    define j where "j = x - 2 ^ i"
    have j: "j < 2 ^ i" "x = 2 ^ i + j" using False x by (simp_all add: j_def)
    have "r2 ! x = r1 ! j OR ?b" using r2(3) j n by simp
    moreover have "index_entry r Qu i j (r1 ! j)" using r1(3) j(1) by simp
    moreover have "\<And>p. bit x p \<longleftrightarrow> p = i \<or> bit j p"
      unfolding j(2) using j(1) by (rule bit_upper_half)
    moreover have "\<not> bit j i" using j(1) by (rule not_bit_small)
    ultimately show ?thesis
      using q by (auto simp: index_entry_def less_Suc_eq bit_or_iff bit_BITS)
  qed
  show ?case using run r2(2) r1(2) ent by simp
qed


lemma fold_insert_zero_bit_low:
  "\<forall>q\<in>set qs. p < q \<Longrightarrow> bit (fold insert_zero_bit qs n) p = bit n p"
  by (induction qs arbitrary: n) (simp_all add: bit_insert_zero_bit)

lemma spec_index0_zero_bits:
  "sorted_wrt (<) qs \<Longrightarrow> q \<in> set qs \<Longrightarrow> \<not> bit (spec_index0 qs k) q"
proof (induction qs arbitrary: k)
  case Nil
  then show ?case by simp
next
  case (Cons a qs)
  show ?case
  proof (cases "q = a")
    case True
    have "bit (fold insert_zero_bit qs (insert_zero_bit a k)) a = bit (insert_zero_bit a k) a"
      using Cons.prems(1) by (intro fold_insert_zero_bit_low) simp
    then show ?thesis using True by (simp add: spec_index0_def bit_insert_zero_bit)
  next
    case False
    then have "\<not> bit (spec_index0 qs (insert_zero_bit a k)) q"
      using Cons.prems by (intro Cons.IH) simp_all
    then show ?thesis by (simp add: spec_index0_def)
  qed
qed

lemma qubits_length_le:
  assumes "distinct (Q :: reg_t)" "\<forall>q\<in>set Q. unat q < N"
  shows "length Q \<le> N"
proof -
  have "length Q = card (set Q)" using assms(1) by (simp add: distinct_card)
  also have "\<dots> = card (unat ` set Q)"
    by (rule card_image [symmetric]) (auto intro!: inj_onI simp: word_unat_eq_iff)
  also have "\<dots> \<le> card {..<N}"
    using assms(2) by (intro card_mono) auto
  finally show ?thesis by simp
qed

text \<open>
  Claim C1. For \<open>N\<close> qubits (at most 63, the range of the bit tables), a sorted list
  \<open>Q\<close> of \<open>M\<close> distinct qubits below \<open>N\<close>, a permutation \<open>Qu\<close> of \<open>Q\<close> and a
  counter \<open>k < 2 ^ (N - M)\<close>: \<^verbatim>\<open>index0(Q, k)\<close> is defined and is the integer obtained
  from \<open>k\<close> by inserting a 0 bit at each position of \<open>Q\<close> in ascending order, so that
  its bit at every position of \<open>Q\<close> is 0; and \<^verbatim>\<open>indexes(Qu, Q, k)\<close> is defined and is a
  table \<open>T\<close> of \<open>2 ^ M\<close> entries with \<open>T[0] = index0(Q, k)\<close>, where \<open>T[i]\<close> is
  \<open>index0(Q, k)\<close> with bit \<open>Qu[j]\<close> set for each \<open>j\<close> at which bit \<open>j\<close> of \<open>i\<close> is 1.
\<close>

theorem index0_indexes_correct:
  assumes N: "N < 64"
    and sorted: "sorted_wrt (<) Q"
    and range: "\<forall>q\<in>set Q. unat q < N"
    and perm: "mset Qu = mset Q"
    and k: "unat k < 2 ^ (N - length Q)"
  shows "\<exists>r T. index0 Q k = Some r
           \<and> unat r = spec_index0 (map unat Q) (unat k)
           \<and> (\<forall>q\<in>set Q. \<not> bit r (unat q))
           \<and> indexes Qu Q k = Some T
           \<and> length T = 2 ^ length Q
           \<and> T ! 0 = r
           \<and> (\<forall>i<2 ^ length Q. \<forall>p. bit (T ! i) p \<longleftrightarrow>
                  bit r p \<or> (\<exists>j<length Q. bit i j \<and> unat (Qu ! j) = p))"
proof -
  have dist: "distinct Q" using sorted by (simp add: strict_sorted_iff)
  have M: "length Q \<le> N" using dist range by (rule qubits_length_le)
  have lenu: "length Qu = length Q" using perm by (rule mset_eq_length)
  have setu: "set Qu = set Q" using perm by (rule mset_eq_setD)
  have "\<forall>q\<in>set Q. unat q < 63" using range N by auto
  moreover have "(N - length Q) + length Q \<le> 63" using M N by simp
  ultimately obtain r where r: "index0 Q k = Some r"
      "unat r = spec_index0 (map unat Q) (unat k)"
    using index0_refines [of Q k "N - length Q"] k by blast
  have sm: "sorted_wrt (<) (map unat Q)"
    using sorted by (simp add: sorted_wrt_map word_less_nat_alt [abs_def])
  have zero: "\<forall>q\<in>set Q. \<not> bit r (unat q)"
  proof
    fix q assume "q \<in> set Q"
    then have "\<not> bit (spec_index0 (map unat Q) (unat k)) (unat q)"
      using sm by (intro spec_index0_zero_bits) simp_all
    then show "\<not> bit r (unat q)"
      by (simp only: r(2) [symmetric] bit_unsigned_iff) simp
  qed
  have M64: "length Q < 64" using M N by simp
  let ?ret = "(replicate (2 ^ length Q) 0)[0 := r]"
  have "\<exists>ret'. forM [0..<length Qu] (indexes_outer Qu) ?ret = Some ret' \<and> length ret' = length ?ret
           \<and> (\<forall>x<2 ^ length Qu. index_entry r Qu (length Qu) x (ret' ! x))"
  proof (rule indexes_outer_loop)
    show "\<forall>q\<in>set Qu. unat q < 64" using range N setu by auto
    show "length Qu < 64" using M64 lenu by simp
    show "length ?ret = 2 ^ length Qu" by (simp add: lenu)
    show "?ret ! 0 = r" by simp
    show "length Qu \<le> length Qu" by simp
  qed
  then obtain T where T: "forM [0..<length Q] (indexes_outer Qu) ?ret = Some T"
      "length T = 2 ^ length Q"
      "\<forall>x<2 ^ length Q. index_entry r Qu (length Q) x (T ! x)"
    by (auto simp: lenu)
  have run: "indexes Qu Q k = Some T"
    using M64 T(1) by (simp add: indexes_def BITS_at_Some unat_two_power r(1) wr_def)
  have "index_entry r Qu (length Q) 0 (T ! 0)" using T(3) by simp
  then have T0: "T ! 0 = r"
    by (intro bit_eqI) (simp add: index_entry_def)
  show ?thesis
    using r zero run T(2) T0 T(3) unfolding index_entry_def by blast
qed

theorem index0_indexes_correct_witness:
  "\<exists>r T. index0 [1, 4] 77 = Some r
           \<and> unat r = spec_index0 (map unat [1, 4 :: uint_t]) (unat (77 :: uint_t))
           \<and> (\<forall>q\<in>set [1, 4 :: uint_t]. \<not> bit r (unat q))
           \<and> indexes [4, 1] [1, 4] 77 = Some T
           \<and> length T = 2 ^ length [1, 4 :: uint_t]
           \<and> T ! 0 = r
           \<and> (\<forall>i<2 ^ length [1, 4 :: uint_t]. \<forall>p. bit (T ! i) p \<longleftrightarrow>
                  bit r p \<or> (\<exists>j<length [1, 4 :: uint_t]. bit i j \<and> unat ([4, 1 :: uint_t] ! j) = p))"
proof -
  have h1: "(9::nat) < 64" by simp
  have h2: "sorted_wrt (<) [1, 4 :: uint_t]" by simp
  have h3: "\<forall>q\<in>set [1, 4 :: uint_t]. unat q < 9" by simp
  have h4: "mset [4, 1 :: uint_t] = mset [1, 4]" by simp
  have h5: "unat (77 :: uint_t) < 2 ^ (9 - length [1, 4 :: uint_t])" by simp
  show ?thesis by (rule index0_indexes_correct [OF h1 h2 h3 h4 h5])
qed

section \<open>Sampling of measurement outcomes\<close>










section \<open>Gates change the state buffer only\<close>




lemma frame_refl: "frame s s"
  by (simp add: frame_def)

lemma frame_trans: "frame s s' \<Longrightarrow> frame s' s'' \<Longrightarrow> frame s s''"
  unfolding frame_def by (metis QubitVector.update_convs(3) QubitVector.surjective)

lemma forM_invariant:
  assumes "\<And>i s s'. body i s = Some s' \<Longrightarrow> P s \<Longrightarrow> P s'"
  shows "forM xs body s = Some s' \<Longrightarrow> P s \<Longrightarrow> P s'"
proof (induction xs arbitrary: s)
  case Nil
  then show ?case by simp
next
  case (Cons i xs)
  then obtain s1 where s1: "body i s = Some s1" "forM xs body s1 = Some s'"
    by (auto split: bind_splits)
  have "P s1" using assms s1(1) Cons.prems(2) by blast
  then show ?case using Cons.IH s1(2) by blast
qed

lemma lenp_forM: "(\<And>i. lenp (body i)) \<Longrightarrow> lenp (forM xs body)"
  unfolding lenp_def
proof (intro allI impI)
  fix d d' assume a: "\<And>i. \<forall>d d'. body i d = Some d' \<longrightarrow> length d' = length d"
    and r: "forM xs body d = Some d'"
  show "length d' = length d"
    by (rule forM_invariant [where P = "\<lambda>x. length x = length d", OF _ r]) (use a in auto)
qed

lemma lenp_wr: "lenp (\<lambda>d. wr d i v)"
  by (auto simp: lenp_def wr_def split: if_splits)

lemma lenp_const_bind: "(\<And>x. lenp (f x)) \<Longrightarrow> lenp (\<lambda>d. m \<bind> (\<lambda>x. f x d))"
  by (auto simp: lenp_def split: bind_splits)

lemma lenp_seq: "lenp f \<Longrightarrow> lenp g \<Longrightarrow> lenp (\<lambda>d. f d \<bind> g)"
  by (auto simp: lenp_def split: bind_splits)

lemma lenp_swap: "lenp (swap_kernel a b)"
  by (auto simp: lenp_def swap_kernel_def rd_def wr_def split: if_splits bind_splits)

lemma lenp_y: "lenp (y_kernel a b)"
  by (auto simp: lenp_def y_kernel_def rd_def wr_def split: if_splits bind_splits)

lemma lenp_scale: "lenp (scale_kernel a z)"
  by (auto simp: lenp_def scale_kernel_def rd_def wr_def split: if_splits bind_splits)

lemma lenp_u2: "lenp (u2_kernel a b m)"
  by (auto simp: lenp_def u2_kernel_def rd_def wr_def split: if_splits bind_splits)

lemma lenp_diag2: "lenp (diag2_kernel a b m)"
  by (auto simp: lenp_def diag2_kernel_def rd_def wr_def split: if_splits bind_splits)

lemma lenp_minus_i: "lenp (minus_i_kernel k)"
  by (auto simp: lenp_def minus_i_kernel_def rd_def wr_def split: if_splits bind_splits)

lemma lenp_plus_i: "lenp (plus_i_kernel k)"
  by (auto simp: lenp_def plus_i_kernel_def rd_def wr_def split: if_splits bind_splits)

lemma lenp_diag: "lenp (diag_kernel DIM m inds)"
  unfolding diag_kernel_def
  by (intro lenp_forM lenp_const_bind lenp_scale)

lemma lenp_perm: "lenp (perm_kernel pairs inds)"
  unfolding perm_kernel_def
  by (intro lenp_forM lenp_const_bind lenp_swap)

lemma dense_load_len: "dense_load inds i cd = Some cd' \<Longrightarrow> length (snd cd') = length (snd cd)"
  by (auto simp: dense_load_def rd_def wr_def split: if_splits bind_splits)

lemma lenp_dense_acc: "lenp (dense_acc DIM mat inds cache i j)"
  by (auto simp: lenp_def dense_acc_def rd_def wr_def split: if_splits bind_splits)

lemma lenp_dense: "lenp (dense_kernel DIM mat inds)"
  unfolding lenp_def
proof (intro allI impI)
  fix d d' assume "dense_kernel DIM mat inds d = Some d'"
  then obtain cd where cd: "forM [0..<DIM] (dense_load inds) (replicate DIM 0, d) = Some cd"
    and r: "forM [0..<DIM] (\<lambda>i. forM [0..<DIM] (dense_acc DIM mat inds (fst cd) i)) (snd cd) = Some d'"
    by (auto simp: dense_kernel_def split: bind_splits)
  have "length (snd cd) = length d"
    by (rule forM_invariant [where P = "\<lambda>x. length (snd x) = length d", OF _ cd])
       (auto dest: dense_load_len)
  moreover have "lenp (forM [0..<DIM] (\<lambda>i. forM [0..<DIM] (dense_acc DIM mat inds (fst cd) i)))"
    by (intro lenp_forM lenp_dense_acc)
  ultimately show "length d' = length d" using r by (simp add: lenp_def)
qed

lemma apply_lambda_frame:
  assumes "\<And>inds. lenp (func inds)" and "apply_lambda dbg func qubits s = Returns s'"
  shows "frame s s'"
proof -
  let ?body = "\<lambda>k d. indexes qubits (sort qubits) (of_nat k) \<bind> (\<lambda>inds. func inds d)"
  have c: "(if dbg then check_qubits s qubits else None) = None"
    using assms(2) by (cases "if dbg then check_qubits s qubits else None") (simp_all add: apply_lambda_def)
  obtain e where e: "shr (data_size_m s) (length qubits) = Some e"
    using assms(2) c by (cases "shr (data_size_m s) (length qubits)") (simp_all add: apply_lambda_def)
  obtain d where run: "forM [0..<nat (sint e)] ?body (data_m s) = Some d"
    using assms(2) c e
    by (cases "forM [0..<nat (sint e)] ?body (data_m s)") (simp_all add: apply_lambda_def)
  have s': "s' = s\<lparr>data_m := d\<rparr>"
    using assms(2) c e run by (simp add: apply_lambda_def)
  have "lenp (forM [0..<nat (sint e)] ?body)"
    by (intro lenp_forM lenp_const_bind assms(1))
  then have "length d = length (data_m s)" using run by (simp add: lenp_def)
  then show ?thesis by (simp add: frame_def s')
qed

lemmas lenp_intros = lenp_const_bind lenp_seq lenp_swap lenp_y lenp_scale lenp_u2 lenp_diag2
  lenp_minus_i lenp_plus_i lenp_diag lenp_perm lenp_dense lenp_wr lenp_forM

lemma apply_diagonal_matrix1_frame:
  "apply_diagonal_matrix1 dbg q diag s = Returns s' \<Longrightarrow> frame s s'"
  unfolding apply_diagonal_matrix1_def opt_def
  by (auto split: option.splits if_splits simp: frame_refl
           elim!: apply_lambda_frame [rotated] intro!: lenp_intros)


lemma apply_matrix1_frame:
  "apply_matrix1 dbg q mat s = Returns s' \<Longrightarrow> frame s s'"
  unfolding apply_matrix1_def opt_def
  by (auto split: option.splits if_splits
           elim!: apply_lambda_frame [rotated] apply_diagonal_matrix1_frame intro!: lenp_intros)

lemma apply_matrix_frame:
  "apply_matrix dbg qubits mat s = Returns s' \<Longrightarrow> frame s s'"
  unfolding apply_matrix_def opt_def checked_def
  by (auto split: option.splits if_splits result.splits
           elim!: apply_lambda_frame [rotated] apply_matrix1_frame intro!: lenp_intros)

lemma apply_diagonal_matrix_frame:
  "apply_diagonal_matrix dbg qubits mat s = Returns s' \<Longrightarrow> frame s s'"
  unfolding apply_diagonal_matrix_def opt_def checked_def
  by (auto split: option.splits if_splits result.splits
           elim!: apply_lambda_frame [rotated] apply_diagonal_matrix1_frame intro!: lenp_intros)

lemma apply_permutation_matrix_frame:
  "apply_permutation_matrix qubits pairs s = Returns s' \<Longrightarrow> frame s s'"
  unfolding apply_permutation_matrix_def
  by (erule apply_lambda_frame [rotated]) (rule lenp_perm)

lemma apply_mcx_frame: "apply_mcx dbg qubits s = Returns s' \<Longrightarrow> frame s s'"
  unfolding apply_mcx_def opt_def
  by (auto split: option.splits elim!: apply_lambda_frame [rotated] intro!: lenp_intros)

lemma apply_mcy_frame: "apply_mcy dbg qubits s = Returns s' \<Longrightarrow> frame s s'"
  unfolding apply_mcy_def opt_def
  by (auto split: option.splits elim!: apply_lambda_frame [rotated] intro!: lenp_intros)

lemma apply_mcz_frame: "apply_mcz dbg qubits s = Returns s' \<Longrightarrow> frame s s'"
  unfolding apply_mcz_def opt_def
  by (auto split: option.splits elim!: apply_lambda_frame [rotated] intro!: lenp_intros)

lemma apply_mcswap_frame: "apply_mcswap dbg qubits s = Returns s' \<Longrightarrow> frame s s'"
  unfolding apply_mcswap_def opt_def
  by (auto split: option.splits elim!: apply_lambda_frame [rotated] intro!: lenp_intros)

lemma apply_mcu_frame: "apply_mcu dbg qubits mat s = Returns s' \<Longrightarrow> frame s s'"
  unfolding apply_mcu_def opt_def
  by (auto split: option.splits if_splits
           elim!: apply_lambda_frame [rotated] apply_matrix1_frame apply_diagonal_matrix1_frame
           intro!: lenp_intros)

lemma apply_each_frame:
  "apply_each dbg regs mats s = Returns s' \<Longrightarrow> frame s s'"
proof (induction dbg regs mats s rule: apply_each.induct)
  case (1 dbg mats s)
  then show ?case by (simp add: frame_refl)
next
  case (2 dbg reg regs s)
  then show ?case by simp
next
  case (3 dbg reg regs mat mats s)
  then obtain s1 where s1: "apply_matrix dbg reg mat s = Returns s1"
      "apply_each dbg regs mats s1 = Returns s'"
    by (auto split: outcome.splits)
  have "frame s s1" using s1(1) by (rule apply_matrix_frame)
  moreover have "frame s1 s'" using "3.IH" s1 by blast
  ultimately show ?case by (rule frame_trans)
qed

lemma apply_matrix_sequence_frame:
  "apply_matrix_sequence dbg regs mats s = Returns s' \<Longrightarrow> frame s s'"
  unfolding apply_matrix_sequence_def opt_def Let_def
  by (auto split: option.splits if_splits result.splits list.splits simp: frame_refl
           elim!: apply_each_frame apply_matrix_frame)

lemma apply_gate_frame: "apply_gate dbg g s = Returns s' \<Longrightarrow> frame s s'"
  by (cases g)
     (auto elim: apply_matrix1_frame apply_matrix_frame apply_matrix_sequence_frame
        apply_diagonal_matrix1_frame apply_diagonal_matrix_frame apply_permutation_matrix_frame
        apply_mcx_frame apply_mcy_frame apply_mcz_frame apply_mcu_frame apply_mcswap_frame)

lemma apply_gates_frame: "apply_gates dbg gs s = Returns s' \<Longrightarrow> frame s s'"
proof (induction gs arbitrary: s)
  case Nil
  then show ?case by (simp add: frame_refl)
next
  case (Cons g gs)
  then obtain s1 where s1: "apply_gate dbg g s = Returns s1" "apply_gates dbg gs s1 = Returns s'"
    by (auto split: outcome.splits)
  have "frame s s1" using s1(1) by (rule apply_gate_frame)
  moreover have "frame s1 s'" using Cons.IH s1(2) by blast
  ultimately show ?case by (rule frame_trans)
qed

section \<open>Checkpoint and revert\<close>


lemma copy_loop_prefix:
  assumes "m \<le> length src" "m \<le> length dst"
  shows "forM [0..<m] (\<lambda>k d. do { v \<leftarrow> rd src k; wr d k v }) dst = Some (take m src @ drop m dst)"
  using assms
proof (induction m)
  case 0
  then show ?case by simp
next
  case (Suc m)
  then have run: "forM [0..<m] (\<lambda>k d. do { v \<leftarrow> rd src k; wr d k v }) dst
                  = Some (take m src @ drop m dst)"
    by simp
  have m: "m < length src" "m < length dst" using Suc.prems by simp_all
  have "(take m src @ drop m dst)[m := src ! m] = take (Suc m) src @ drop (Suc m) dst"
    using m by (simp add: list_update_append take_Suc_conv_app_nth
                  Cons_nth_drop_Suc [symmetric] del: drop_Suc)
       
  then show ?case
    using m by (simp only: forM_upt_Suc run) (simp add: rd_def wr_def)
qed

lemma copy_loop_full:
  assumes "length src = n" "length dst = n"
  shows "copy_loop (int n) src dst = Some src"
  using copy_loop_prefix [of n src dst] assms by (simp add: copy_loop_def)

lemma malloc_amplitudes_length:
  assumes "unat n < 2 ^ 60"
  shows "length (malloc_amplitudes n) = unat n"
proof -
  have "16 * unat n < 2 ^ 64" using assms by simp
  then have "unat (16 * n) = 16 * unat n"
    by (simp add: unat_word_ariths)
  then show ?thesis by (simp add: malloc_amplitudes_def)
qed

text \<open>
  Claim C5. On an object satisfying the class invariant, \<^verbatim>\<open>checkpoint()\<close> returns with
  a copy of the state buffer as checkpoint; after any sequence of gate applications that
  return, \<^verbatim>\<open>revert(false)\<close> yields the object as it was at the checkpoint, with every
  amplitude equal to its value then and the checkpoint buffer released, and
  \<^verbatim>\<open>revert(true)\<close> yields the same amplitudes and keeps the checkpoint buffer.
\<close>

theorem checkpoint_revert_restores:
  assumes "invariant s"
  shows "checkpoint s = Returns (s\<lparr>checkpoint_m := Some (data_m s)\<rparr>)
         \<and> (\<forall>gs s'. apply_gates dbg gs (s\<lparr>checkpoint_m := Some (data_m s)\<rparr>) = Returns s' \<longrightarrow>
               revert dbg False s' = Returns (s\<lparr>checkpoint_m := None\<rparr>)
               \<and> revert dbg True s' = Returns (s\<lparr>checkpoint_m := Some (data_m s)\<rparr>))"
proof -
  let ?n = "unat (data_size_m s)"
  let ?s1 = "s\<lparr>checkpoint_m := Some (data_m s)\<rparr>"
  have len: "length (data_m s) = ?n" and small: "?n < 2 ^ 60"
    using assms by (simp_all add: invariant_def)
  have END: "sint (data_size_m s) = int ?n" using assms by (rule invariant_sint)
  have buf: "length (case checkpoint_m s of None \<Rightarrow> malloc_amplitudes (data_size_m s) | Some c \<Rightarrow> c) = ?n"
    using assms small by (auto simp: invariant_def malloc_amplitudes_length split: option.splits)
  have "copy_loop (sint (data_size_m s)) (data_m s)
          (case checkpoint_m s of None \<Rightarrow> malloc_amplitudes (data_size_m s) | Some c \<Rightarrow> c)
        = Some (data_m s)"
    unfolding END using len buf by (rule copy_loop_full)
  then have ck: "checkpoint s = Returns ?s1"
    by (simp add: checkpoint_def)
  have rv: "revert dbg False s' = Returns (s\<lparr>checkpoint_m := None\<rparr>)
            \<and> revert dbg True s' = Returns ?s1"
    if run: "apply_gates dbg gs ?s1 = Returns s'" for gs s'
  proof -
    have fr: "frame ?s1 s'" using run by (rule apply_gates_frame)
    then have s': "s' = ?s1\<lparr>data_m := data_m s'\<rparr>" and l: "length (data_m s') = ?n"
      using len by (simp_all add: frame_def)
    have c: "checkpoint_m s' = Some (data_m s)" and z: "data_size_m s' = data_size_m s"
      by (subst s', simp)+
    have cp: "copy_loop (sint (data_size_m s')) (data_m s) (data_m s') = Some (data_m s)"
      unfolding z END using len l by (rule copy_loop_full)
    have "revert dbg keep s' = Returns (s'\<lparr>data_m := data_m s,
                 checkpoint_m := (if keep then Some (data_m s) else None)\<rparr>)" for keep
      by (simp add: revert_def check_checkpoint_def c cp)
    moreover have "s'\<lparr>data_m := data_m s, checkpoint_m := x\<rparr> = s\<lparr>checkpoint_m := x\<rparr>" for x
      by (subst s') simp
    ultimately show ?thesis by simp
  qed
  show ?thesis using ck rv by blast
qed

theorem checkpoint_revert_restores_witness:
  "invariant (default_qv 1 [1, 0])
   \<and> checkpoint (default_qv 1 [1, 0]) = Returns ((default_qv 1 [1, 0])\<lparr>checkpoint_m := Some [1, 0]\<rparr>)
   \<and> apply_gates False [MCX [0]] ((default_qv 1 [1, 0])\<lparr>checkpoint_m := Some [1, 0]\<rparr>)
       = Returns ((default_qv 1 [0, 1])\<lparr>checkpoint_m := Some [1, 0]\<rparr>)
   \<and> revert False False ((default_qv 1 [0, 1])\<lparr>checkpoint_m := Some [1, 0]\<rparr>)
       = Returns (default_qv 1 [1, 0])
   \<and> revert False True ((default_qv 1 [0, 1])\<lparr>checkpoint_m := Some [1, 0]\<rparr>)
       = Returns ((default_qv 1 [1, 0])\<lparr>checkpoint_m := Some [1, 0]\<rparr>)"
proof -
  have h: "invariant (default_qv 1 [1, 0])" by (simp add: invariant_def default_qv_def BITS_at_def BITS_def)
  have g: "apply_gates False [MCX [0]] ((default_qv 1 [1, 0])\<lparr>checkpoint_m := Some [1, 0]\<rparr>)
       = Returns ((default_qv 1 [0, 1])\<lparr>checkpoint_m := Some [1, 0]\<rparr>)"
    by code_simp
  have d: "data_m (default_qv 1 [1, 0]) = [1, 0]" 
    "(default_qv 1 [1, 0])\<lparr>checkpoint_m := None\<rparr> = default_qv 1 [1, 0]"
    by (simp_all add: default_qv_def)
  show ?thesis
    using h g checkpoint_revert_restores [OF h, of False] unfolding d by blast
qed

section \<open>Serialization\<close>





section \<open>Configuration setters\<close>

lemma uint_scast_pos:
  fixes n :: "32 word"
  assumes "0 < sint n"
  shows "uint (scast n :: uint_t) = sint n"
proof -
  have "sint n < 2 ^ (LENGTH(32) - 1)" by (rule sint_lt)
  moreover have "(2::int) ^ (LENGTH(32) - 1) \<le> 2 ^ 64" by simp
  ultimately have lt: "sint n < 2 ^ 64" by (rule less_le_trans)
  have "uint (word_of_int (sint n) :: uint_t) = take_bit 64 (sint n)"
    by (simp only: uint_word_of_int_eq) simp
  also have "\<dots> = sint n"
    using assms lt by (simp only: take_bit_int_eq_self_iff) simp
  finally show ?thesis by (simp only: scast_eq)
qed

text \<open>
  Claim C10. For every \<^verbatim>\<open>int\<close> \<open>n\<close>, \<^verbatim>\<open>set_omp_threads(n)\<close> and
  \<^verbatim>\<open>set_omp_threshold(n)\<close> change no field but their own, and that field holds the value
  \<open>n\<close> afterwards exactly when \<open>n > 0\<close>; for \<open>n \<le> 0\<close> it keeps its old value.
  The functions return normally in both cases.
\<close>

theorem set_omp_config:
  "set_omp_threads n s = s\<lparr>omp_threads_m := omp_threads_m (set_omp_threads n s)\<rparr>
   \<and> uint (omp_threads_m (set_omp_threads n s)) = (if 0 < sint n then sint n else uint (omp_threads_m s))
   \<and> set_omp_threshold n s = s\<lparr>omp_threshold_m := omp_threshold_m (set_omp_threshold n s)\<rparr>
   \<and> uint (omp_threshold_m (set_omp_threshold n s)) = (if 0 < sint n then sint n else uint (omp_threshold_m s))"
  by (simp add: set_omp_threads_def set_omp_threshold_def uint_scast_pos)

section \<open>Element access\<close>

text \<open>
  Claim C8. The debug-mode bounds check of \<^verbatim>\<open>operator[]\<close> raises an error exactly for
  an index strictly greater than \<open>data_size_\<close>. The index \<open>data_size_\<close> itself, the
  first one outside the buffer, passes the check, and the access that follows it is out of
  bounds.
\<close>

theorem element_at_debug_check:
  "((\<exists>e. element_at True s i = Raise e) \<longleftrightarrow> data_size_m s < i)
   \<and> (\<forall>e. element_at True s (data_size_m s) \<noteq> Raise e)
   \<and> (length (data_m s) = unat (data_size_m s) \<longrightarrow> element_at True s (data_size_m s) = UB)"
  by (auto simp: element_at_def lift_def rd_def split: option.splits)

theorem element_at_debug_check_witness:
  "((\<exists>e. element_at True (default_qv 1 [1, 0]) 2 = Raise e) \<longleftrightarrow> data_size_m (default_qv 1 [1, 0]) < 2)
   \<and> (\<forall>e. element_at True (default_qv 1 [1, 0]) (data_size_m (default_qv 1 [1, 0])) \<noteq> Raise e)
   \<and> length (data_m (default_qv 1 [1, 0])) = unat (data_size_m (default_qv 1 [1, 0]))
   \<and> element_at True (default_qv 1 [1, 0]) (data_size_m (default_qv 1 [1, 0])) = UB"
  using element_at_debug_check [of "default_qv 1 [1, 0]" 2]
  by (simp add: default_qv_def)

section \<open>Missing checkpoint\<close>

text \<open>
  Claim C6, as amended. In a build with \<^verbatim>\<open>DEBUG\<close> defined, \<^verbatim>\<open>revert(keep)\<close> and
  \<^verbatim>\<open>inner_product()\<close> called with no checkpoint buffer present raise the
  "checkpoint must exist" error, and the object is at the throw as it was at the call.
\<close>

theorem missing_checkpoint_debug:
  assumes "checkpoint_m s = None"
  shows "revert True keep s =
           Throws (Runtime_error ''QubitVector: checkpoint must exist for inner_product() or revert()'') s
         \<and> inner_product True s =
           Raise (Runtime_error ''QubitVector: checkpoint must exist for inner_product() or revert()'')"
  using assms by (simp add: revert_def inner_product_def check_checkpoint_def)

theorem missing_checkpoint_debug_witness:
  "checkpoint_m (default_qv 1 [1, 0]) = None
   \<and> revert True False (default_qv 1 [1, 0]) =
           Throws (Runtime_error ''QubitVector: checkpoint must exist for inner_product() or revert()'')
             (default_qv 1 [1, 0])
   \<and> inner_product True (default_qv 1 [1, 0]) =
           Raise (Runtime_error ''QubitVector: checkpoint must exist for inner_product() or revert()'')"
proof -
  have h: "checkpoint_m (default_qv 1 [1, 0]) = None" by (simp add: default_qv_def)
  show ?thesis using h missing_checkpoint_debug [OF h, of False] by simp
qed

text \<open>
  Claim C6 as stated fails without \<^verbatim>\<open>DEBUG\<close>: the check is compiled out, and on a
  one-qubit object with no checkpoint both operations read through the null
  \<open>checkpoint_\<close> instead of raising the error.
\<close>

theorem missing_checkpoint_counterexample:
  "revert False False (default_qv 1 [1, 0]) = Undefined
   \<and> inner_product False (default_qv 1 [1, 0]) = UB"
  by code_simp

section \<open>Multi-controlled U\<close>

text \<open>
  Claim C2, evaluated on the code. On three qubits with qubit list \<open>[0, 1]\<close> there are
  two blocks, with index tables \<open>[0, 1, 2, 3]\<close> and \<open>[4, 5, 6, 7]\<close>, so the claim has
  \<^verbatim>\<open>apply_mcu\<close> update the pairs \<open>(1, 3)\<close> and \<open>(5, 7)\<close>. The code updates
  \<open>data_[1]\<close> and \<open>data_[3]\<close> once per block and never touches \<open>5\<close> and \<open>7\<close>:
  with the diagonal matrix \<open>diag(1, -1)\<close> the sign at position 3 is flipped twice and the
  state comes back unchanged, where \<^verbatim>\<open>apply_mcz\<close> flips positions 3 and 7; with the X
  matrix positions 1 and 3 are exchanged twice, where \<^verbatim>\<open>apply_mcx\<close> exchanges \<open>1, 3\<close>
  and \<open>5, 7\<close>.
\<close>

theorem apply_mcu_ignores_index_table:
  "apply_mcu False [0, 1] [1, 0, 0, - 1] (default_qv 3 [1, 1, 1, 1, 1, 1, 1, 1])
     = Returns (default_qv 3 [1, 1, 1, 1, 1, 1, 1, 1])
   \<and> apply_mcz False [0, 1] (default_qv 3 [1, 1, 1, 1, 1, 1, 1, 1])
     = Returns (default_qv 3 [1, 1, 1, - 1, 1, 1, 1, - 1])
   \<and> apply_mcu False [0, 1] [0, 1, 1, 0] (default_qv 3 [0, 1, 0, 0, 0, 1, 0, 0])
     = Returns (default_qv 3 [0, 1, 0, 0, 0, 1, 0, 0])
   \<and> apply_mcx False [0, 1] (default_qv 3 [0, 1, 0, 0, 0, 1, 0, 0])
     = Returns (default_qv 3 [0, 0, 0, 1, 0, 0, 0, 1])
   \<and> indexes [0, 1] [0, 1] 0 = Some [0, 1, 2, 3]
   \<and> indexes [0, 1] [0, 1] 1 = Some [4, 5, 6, 7]"
  by code_simp

section \<open>Fusion of a gate sequence\<close>

text \<open>
  Claim C9. For every \<open>regs\<close>, \<^verbatim>\<open>apply_matrix_sequence(regs, mats)\<close> with an empty
  \<open>mats\<close> returns at once, with or without \<^verbatim>\<open>DEBUG\<close>, raising nothing and leaving
  the object, and so every amplitude, as it was.
\<close>

theorem apply_matrix_sequence_empty:
  "apply_matrix_sequence dbg regs [] s = Returns s"
  by (simp add: apply_matrix_sequence_def)

text \<open>
  Claim C3, evaluated on the code. On two qubits in the basis state of index 2, the
  controlled-X matrix on the unsorted qubit list \<open>[1, 0]\<close> moves the amplitude to
  index 3 when applied by \<^verbatim>\<open>apply_matrix\<close>, and leaves the state unchanged when applied
  through \<^verbatim>\<open>apply_matrix_sequence\<close>: \<^verbatim>\<open>expand_matrix\<close> hands the matrix back
  unchanged for the sorted list \<open>[0, 1]\<close>, on which it acts differently. All entries are
  0 or 1, so no rounding is involved.
\<close>

theorem apply_matrix_sequence_unsorted_pair:
  "apply_matrix_sequence False [[1, 0]] [[1, 0, 0, 0, 0, 0, 0, 1, 0, 0, 1, 0, 0, 1, 0, 0]]
       (default_qv 2 [0, 0, 1, 0])
     = Returns (default_qv 2 [0, 0, 1, 0])
   \<and> apply_matrix False [1, 0] [1, 0, 0, 0, 0, 0, 0, 1, 0, 0, 1, 0, 0, 1, 0, 0]
       (default_qv 2 [0, 0, 1, 0])
     = Returns (default_qv 2 [0, 0, 0, 1])
   \<and> expand_matrix [1, 0] [0, 1] [1, 0, 0, 0, 0, 0, 0, 1, 0, 0, 1, 0, 0, 1, 0, 0]
     = Ok [1, 0, 0, 0, 0, 0, 0, 1, 0, 0, 1, 0, 0, 1, 0, 0]
   \<and> apply_matrix False [0, 1] [1, 0, 0, 0, 0, 0, 0, 1, 0, 0, 1, 0, 0, 1, 0, 0]
       (default_qv 2 [0, 0, 1, 0])
     = Returns (default_qv 2 [0, 0, 1, 0])"
  by code_simp

end
